theory Spec2Isabelle
  imports Main "HOL-Library.Sublist" "HOL-Library.AList_Mapping"
begin

section \<open>The repository syncer of minima (package get)\<close>

text \<open>
  The syncer mirrors an RPM repository: it fetches the index \<^verbatim>\<open>repodata/repomd.xml\<close>,
  every metadata file the index names, classifies the packages of the primary manifest
  against the local storage, downloads or recycles them and commits. The model below
  follows the Go source function by function. Streams are byte strings, the state of the
  storage is threaded explicitly, and every call that leaves the syncer (HTTP, storage,
  log) is recorded in a trace.
\<close>

subsection \<open>Data decoded from the XML documents\<close>

type_synonym bytes = string

text \<open>XMLLocation, XMLData and XMLRepomd: the tags of \<^verbatim>\<open>repodata/repomd.xml\<close>.\<close>

record XMLLocation =
  Href :: string

record XMLData =
  data_Type :: string
  data_Location :: XMLLocation

record XMLRepomd =
  Data :: "XMLData list"

text \<open>XMLChecksum, XMLPackage and XMLMetaData: the tags of the primary manifest.\<close>

record XMLChecksum =
  checksum_Type :: string
  checksum_Checksum :: string

record XMLPackage =
  Arch :: string
  Location :: XMLLocation
  Checksum :: XMLChecksum

record XMLMetaData =
  Packages :: "XMLPackage list"

subsection \<open>Checksum types and errors\<close>

text \<open>
  Modelled from the spec: the declaration of ChecksumType is not part of the files at hand.
  The spec gives the enumeration SHA1, SHA256, Unknown and says that every name outside
  the table maps to Unknown; Unknown is therefore the zero value that a lookup of a
  missing key in a Go map returns.
\<close>

datatype ChecksumType = Unknown | SHA1 | SHA256

definition checksumTypeMap :: "(string \<times> ChecksumType) list" where
  "checksumTypeMap = [(''sha'', SHA1), (''sha1'', SHA1), (''sha256'', SHA256)]"

text \<open>The Go expression \<^verbatim>\<open>checksumTypeMap[name]\<close>: the zero value for a missing key.\<close>

definition checksumTypeMap_index :: "string \<Rightarrow> ChecksumType" where
  "checksumTypeMap_index name =
     (case map_of checksumTypeMap name of None \<Rightarrow> Unknown | Some t \<Rightarrow> t)"

text \<open>
  Modelled from the spec: ErrFileNotFound and the error of DownloadApply are declared
  outside the files at hand. A Go error value is here the sentinel ErrFileNotFound, which
  the source compares by identity, the failure of an HTTP request with its status code,
  or any other failure with its message. The spec names the HTTP failure
  HttpError{statusCode}, with the status code embedded in it so that callers can
  recognise 404; its text here ends with the decimal status code, which is what the
  caller's test looks at. The text of ErrFileNotFound is not known; no statement below
  depends on it.
\<close>

datatype error = ErrFileNotFound | HttpError nat | Failure string

definition digit_char :: "nat \<Rightarrow> char" where
  "digit_char d = char_of (48 + d)"

fun decimal :: "nat \<Rightarrow> string" where
  "decimal n = (if n < 10 then [digit_char n] else decimal (n div 10) @ [digit_char (n mod 10)])"

declare decimal.simps [simp del]

fun Error :: "error \<Rightarrow> string" where
  "Error ErrFileNotFound = ''file not found''"
| "Error (HttpError code) = ''unexpected status code '' @ decimal code"
| "Error (Failure msg) = msg"

text \<open>\<^verbatim>\<open>strings.HasSuffix(s, suffix)\<close>\<close>

definition HasSuffix :: "string \<Rightarrow> string \<Rightarrow> bool" where
  "HasSuffix s suf = suffix suf s"

subsection \<open>The trace of calls and log lines\<close>

text \<open>One constructor for each log statement of the source, with its arguments.\<close>

datatype logline =
    Downloading_packages nat
  | Downloading string
  | Recycling_packages nat
  | Committing_changes
  | Got_404_ignoring
  | Package_not_found string
  | Checksum_evaluation_error string
  | Error_message error
  | Package_skipped
  | Package_checksum_error string
  | Repo_vs_local string string
  | Package_up_to_date string

datatype event =
    Log logline
  | Get string
  | Store string string
  | Query string ChecksumType
  | Recycled string
  | Committed

subsection \<open>The collaborators of the syncer\<close>

text \<open>
  The Storage value a syncer holds. Its methods are called by the source as
  \<^verbatim>\<open>r.storage.StoringMapper\<close>, \<^verbatim>\<open>r.storage.Checksum\<close>, \<^verbatim>\<open>r.storage.Recycle\<close> and
  \<^verbatim>\<open>r.storage.Commit\<close>; their bodies are not among the files at hand, so they are
  parameters here, over any type of storage state. StoringMapper takes the bytes that
  stream through the mapped reader. Checksum only reads the state.
\<close>

record 'st Storage =
  StoringMapper :: "string \<Rightarrow> string \<Rightarrow> bytes \<Rightarrow> 'st \<Rightarrow> error option \<times> 'st"
  Storage_Checksum :: "string \<Rightarrow> ChecksumType \<Rightarrow> 'st \<Rightarrow> error + string"
  Recycle :: "string \<Rightarrow> 'st \<Rightarrow> error option \<times> 'st"
  Commit :: "'st \<Rightarrow> error option \<times> 'st"

text \<open>
  What lies outside the process: the answer of the remote server to a GET of a URL, and
  the decoders of the Go library (gzip.NewReader, xml.Decoder.Decode into an XMLRepomd
  and into an XMLMetaData).
\<close>

record env =
  httpGet :: "string \<Rightarrow> error + bytes"
  xml_Decode_repomd :: "bytes \<Rightarrow> error + XMLRepomd"
  gzip_NewReader :: "bytes \<Rightarrow> error + bytes"
  xml_Decode_primary :: "bytes \<Rightarrow> error + XMLMetaData"

record 'st Syncer =
  Url :: string
  archs :: "(string, bool) mapping"
  storage :: "'st Storage"

text \<open>The state a run works on: the state of the storage and the trace so far.\<close>

record 'st world =
  store :: 'st
  trace :: "event list"

definition emit :: "event \<Rightarrow> 'st world \<Rightarrow> 'st world" where
  "emit e w = w\<lparr>trace := trace w @ [e]\<rparr>"

definition log_Printf :: "logline \<Rightarrow> 'st world \<Rightarrow> 'st world" where
  "log_Printf l w = emit (Log l) w"

subsection \<open>The download pipeline\<close>

text \<open>
  Modelled from the spec: DownloadApply, util.Compose and util.Nop are not among the files
  at hand. DownloadApply issues the GET and fails with the request's error, otherwise it
  hands the body to the consumer and returns the consumer's error. Compose passes the
  stream through the mapper (which persists it) and on to the consumer. Nop consumes the
  stream and does nothing else. A consumer may assign variables of the function that
  created it: \<open>'c\<close> is the type of these captured variables.
\<close>

definition DownloadApply ::
  "env \<Rightarrow> string \<Rightarrow> (bytes \<Rightarrow> 'c \<Rightarrow> 'st world \<Rightarrow> error option \<times> 'c \<times> 'st world) \<Rightarrow>
     'c \<Rightarrow> 'st world \<Rightarrow> error option \<times> 'c \<times> 'st world" where
  "DownloadApply en url f c w =
     (case httpGet en url of
        Inl err \<Rightarrow> (Some err, c, emit (Get url) w)
      | Inr body \<Rightarrow> f body c (emit (Get url) w))"

definition Compose ::
  "(bytes \<Rightarrow> 'st world \<Rightarrow> error option \<times> 'st world) \<Rightarrow>
   (bytes \<Rightarrow> 'c \<Rightarrow> 'st world \<Rightarrow> error option \<times> 'c \<times> 'st world) \<Rightarrow>
     bytes \<Rightarrow> 'c \<Rightarrow> 'st world \<Rightarrow> error option \<times> 'c \<times> 'st world" where
  "Compose mapper f body c w =
     (case mapper body w of
        (Some err, w') \<Rightarrow> (Some err, c, w')
      | (None, w') \<Rightarrow> f body c w')"

definition Nop :: "bytes \<Rightarrow> 'c \<Rightarrow> 'st world \<Rightarrow> error option \<times> 'c \<times> 'st world" where
  "Nop body c w = (None, c, w)"

text \<open>The call \<^verbatim>\<open>r.storage.StoringMapper(path, checksum)\<close>, applied to a stream.\<close>

definition storage_StoringMapper ::
  "'st Syncer \<Rightarrow> string \<Rightarrow> string \<Rightarrow> bytes \<Rightarrow> 'st world \<Rightarrow> error option \<times> 'st world" where
  "storage_StoringMapper r path checksum body w =
     (case StoringMapper (storage r) path checksum body (store w) of
        (err, st') \<Rightarrow> (err, emit (Store path checksum) (w\<lparr>store := st'\<rparr>)))"

definition downloadStoreApply ::
  "env \<Rightarrow> 'st Syncer \<Rightarrow> string \<Rightarrow> string \<Rightarrow>
   (bytes \<Rightarrow> 'c \<Rightarrow> 'st world \<Rightarrow> error option \<times> 'c \<times> 'st world) \<Rightarrow>
     'c \<Rightarrow> 'st world \<Rightarrow> error option \<times> 'c \<times> 'st world" where
  "downloadStoreApply en r path checksum f c w =
     DownloadApply en (Url r @ ''/'' @ path)
       (Compose (storage_StoringMapper r path checksum) f) c
       (log_Printf (Downloading path) w)"

definition downloadStore :: "env \<Rightarrow> 'st Syncer \<Rightarrow> string \<Rightarrow> 'st world \<Rightarrow> error option \<times> 'st world" where
  "downloadStore en r path w =
     (case downloadStoreApply en r path [] Nop () w of (err, _, w') \<Rightarrow> (err, w'))"

subsection \<open>processPrimary\<close>

text \<open>
  The body of the loop over \<^verbatim>\<open>primary.Packages\<close>. The two lists are the named results
  of processPrimary, which the consumer appends to. The error of the checksum query is a
  variable of the loop body only: it never becomes the error of the consumer.
\<close>

definition processPrimary_pack ::
  "'st Syncer \<Rightarrow> bool \<Rightarrow> XMLPackage \<Rightarrow>
     XMLPackage list \<times> XMLPackage list \<times> 'st world \<Rightarrow> XMLPackage list \<times> XMLPackage list \<times> 'st world" where
  "processPrimary_pack r allArchs pack s =
     (case s of (packagesToDownload, packagesToRecycle, w) \<Rightarrow>
        if allArchs \<or> Arch pack = ''noarch'' \<or> Mapping.lookup (archs r) (Arch pack) = Some True then
          (let href = Href (Location pack);
               ty = checksumTypeMap_index (checksum_Type (Checksum pack));
               w1 = emit (Query href ty) w
           in case Storage_Checksum (storage r) href ty (store w) of
                Inl err \<Rightarrow>
                  if err = ErrFileNotFound then
                    (packagesToDownload @ [pack], packagesToRecycle,
                     log_Printf (Package_not_found href) w1)
                  else
                    (packagesToDownload, packagesToRecycle,
                     log_Printf Package_skipped
                       (log_Printf (Error_message err)
                          (log_Printf (Checksum_evaluation_error href) w1)))
              | Inr storageChecksum \<Rightarrow>
                  if checksum_Checksum (Checksum pack) \<noteq> storageChecksum then
                    (packagesToDownload @ [pack], packagesToRecycle,
                     log_Printf (Repo_vs_local (checksum_Checksum (Checksum pack)) storageChecksum)
                       (log_Printf (Package_checksum_error href) w1))
                  else
                    (packagesToDownload, packagesToRecycle @ [pack],
                     log_Printf (Package_up_to_date href) w1))
        else s)"

fun processPrimary_loop ::
  "'st Syncer \<Rightarrow> bool \<Rightarrow> XMLPackage list \<Rightarrow>
     XMLPackage list \<times> XMLPackage list \<times> 'st world \<Rightarrow> XMLPackage list \<times> XMLPackage list \<times> 'st world" where
  "processPrimary_loop r allArchs [] s = s"
| "processPrimary_loop r allArchs (pack # rest) s =
     processPrimary_loop r allArchs rest (processPrimary_pack r allArchs pack s)"

text \<open>The consumer that processPrimary passes to downloadStoreApply.\<close>

definition processPrimary_consumer ::
  "env \<Rightarrow> 'st Syncer \<Rightarrow> bytes \<Rightarrow> XMLPackage list \<times> XMLPackage list \<Rightarrow> 'st world \<Rightarrow>
     error option \<times> (XMLPackage list \<times> XMLPackage list) \<times> 'st world" where
  "processPrimary_consumer en r reader c w =
     (case gzip_NewReader en reader of
        Inl err \<Rightarrow> (Some err, c, w)
      | Inr gzReader \<Rightarrow>
          (case xml_Decode_primary en gzReader of
             Inl err \<Rightarrow> (Some err, c, w)
           | Inr primary \<Rightarrow>
               (let allArchs = Mapping.is_empty (archs r) in
                case processPrimary_loop r allArchs (Packages primary) (fst c, snd c, w) of
                  (packagesToDownload, packagesToRecycle, w') \<Rightarrow>
                    (None, (packagesToDownload, packagesToRecycle), w'))))"

definition processPrimary ::
  "env \<Rightarrow> 'st Syncer \<Rightarrow> string \<Rightarrow> 'st world \<Rightarrow>
     XMLPackage list \<times> XMLPackage list \<times> error option \<times> 'st world" where
  "processPrimary en r path w =
     (case downloadStoreApply en r path [] (processPrimary_consumer en r) ([], []) w of
        (err, (packagesToDownload, packagesToRecycle), w') \<Rightarrow>
          (packagesToDownload, packagesToRecycle, err, w'))"

subsection \<open>processMetadata\<close>

definition repomdPath :: string where
  "repomdPath = ''repodata/repomd.xml''"

text \<open>
  The loop over \<^verbatim>\<open>repomd.Data\<close>. The two lists are the named results of
  processMetadata: a primary entry overwrites them with the results of processPrimary.
  The loop returns at the first error.
\<close>

fun processMetadata_loop ::
  "env \<Rightarrow> 'st Syncer \<Rightarrow> XMLData list \<Rightarrow> XMLPackage list \<times> XMLPackage list \<Rightarrow> 'st world \<Rightarrow>
     error option \<times> (XMLPackage list \<times> XMLPackage list) \<times> 'st world" where
  "processMetadata_loop en r [] c w = (None, c, w)"
| "processMetadata_loop en r (d # data) c w =
     (let metadataPath = Href (data_Location d) in
      if data_Type d = ''primary'' then
        (case processPrimary en r metadataPath w of
           (packagesToDownload, packagesToRecycle, err, w') \<Rightarrow>
             (case err of
                Some e \<Rightarrow> (Some e, (packagesToDownload, packagesToRecycle), w')
              | None \<Rightarrow> processMetadata_loop en r data (packagesToDownload, packagesToRecycle) w'))
      else
        (case downloadStore en r metadataPath w of
           (err, w') \<Rightarrow>
             (case err of
                Some e \<Rightarrow> (Some e, c, w')
              | None \<Rightarrow> processMetadata_loop en r data c w')))"

text \<open>The consumer that processMetadata passes to downloadStoreApply.\<close>

definition processMetadata_consumer ::
  "env \<Rightarrow> 'st Syncer \<Rightarrow> bytes \<Rightarrow> XMLPackage list \<times> XMLPackage list \<Rightarrow> 'st world \<Rightarrow>
     error option \<times> (XMLPackage list \<times> XMLPackage list) \<times> 'st world" where
  "processMetadata_consumer en r reader c w =
     (case xml_Decode_repomd en reader of
        Inl err \<Rightarrow> (Some err, c, w)
      | Inr repomd \<Rightarrow> processMetadata_loop en r (Data repomd) c w)"

definition processMetadata ::
  "env \<Rightarrow> 'st Syncer \<Rightarrow> 'st world \<Rightarrow>
     XMLPackage list \<times> XMLPackage list \<times> error option \<times> 'st world" where
  "processMetadata en r w =
     (case downloadStoreApply en r repomdPath [] (processMetadata_consumer en r) ([], []) w of
        (Some err, (packagesToDownload, packagesToRecycle), w1) \<Rightarrow>
          (packagesToDownload, packagesToRecycle, Some err, w1)
      | (None, (packagesToDownload, packagesToRecycle), w1) \<Rightarrow>
          (case downloadStore en r (repomdPath @ ''.asc'') w1 of
             (Some err, w2) \<Rightarrow>
               if HasSuffix (Error err) ''404'' then
                 (case downloadStore en r (repomdPath @ ''.key'') (log_Printf Got_404_ignoring w2) of
                    (Some err', w3) \<Rightarrow>
                      if HasSuffix (Error err') ''404'' then
                        (packagesToDownload, packagesToRecycle, None, log_Printf Got_404_ignoring w3)
                      else (packagesToDownload, packagesToRecycle, Some err', w3)
                  | (None, w3) \<Rightarrow> (packagesToDownload, packagesToRecycle, None, w3))
               else (packagesToDownload, packagesToRecycle, Some err, w2)
           | (None, w2) \<Rightarrow>
               (case downloadStore en r (repomdPath @ ''.key'') w2 of
                  (Some err', w3) \<Rightarrow>
                    if HasSuffix (Error err') ''404'' then
                      (packagesToDownload, packagesToRecycle, None, log_Printf Got_404_ignoring w3)
                    else (packagesToDownload, packagesToRecycle, Some err', w3)
                | (None, w3) \<Rightarrow> (packagesToDownload, packagesToRecycle, None, w3))))"

subsection \<open>StoreRepo\<close>

text \<open>The loop over packagesToDownload: it returns at the first download that fails.\<close>

fun StoreRepo_download ::
  "env \<Rightarrow> 'st Syncer \<Rightarrow> XMLPackage list \<Rightarrow> 'st world \<Rightarrow> error option \<times> 'st world" where
  "StoreRepo_download en r [] w = (None, w)"
| "StoreRepo_download en r (pack # rest) w =
     (case downloadStoreApply en r (Href (Location pack)) (checksum_Checksum (Checksum pack)) Nop () w of
        (Some err, _, w') \<Rightarrow> (Some err, w')
      | (None, _, w') \<Rightarrow> StoreRepo_download en r rest w')"

text \<open>The call \<^verbatim>\<open>r.storage.Recycle(path)\<close> and the loop over packagesToRecycle.\<close>

definition storage_Recycle :: "'st Syncer \<Rightarrow> string \<Rightarrow> 'st world \<Rightarrow> error option \<times> 'st world" where
  "storage_Recycle r path w =
     (case Recycle (storage r) path (store w) of
        (err, st') \<Rightarrow> (err, emit (Recycled path) (w\<lparr>store := st'\<rparr>)))"

fun StoreRepo_recycle ::
  "'st Syncer \<Rightarrow> XMLPackage list \<Rightarrow> 'st world \<Rightarrow> error option \<times> 'st world" where
  "StoreRepo_recycle r [] w = (None, w)"
| "StoreRepo_recycle r (pack # rest) w =
     (case storage_Recycle r (Href (Location pack)) w of
        (Some err, w') \<Rightarrow> (Some err, w')
      | (None, w') \<Rightarrow> StoreRepo_recycle r rest w')"

definition storage_Commit :: "'st Syncer \<Rightarrow> 'st world \<Rightarrow> error option \<times> 'st world" where
  "storage_Commit r w =
     (case Commit (storage r) (store w) of
        (err, st') \<Rightarrow> (err, emit Committed (w\<lparr>store := st'\<rparr>)))"

definition StoreRepo :: "env \<Rightarrow> 'st Syncer \<Rightarrow> 'st world \<Rightarrow> error option \<times> 'st world" where
  "StoreRepo en r w =
     (case processMetadata en r w of
        (packagesToDownload, packagesToRecycle, Some err, w1) \<Rightarrow> (Some err, w1)
      | (packagesToDownload, packagesToRecycle, None, w1) \<Rightarrow>
          (case StoreRepo_download en r packagesToDownload
                  (log_Printf (Downloading_packages (length packagesToDownload)) w1) of
             (Some err, w2) \<Rightarrow> (Some err, w2)
           | (None, w2) \<Rightarrow>
               (case StoreRepo_recycle r packagesToRecycle
                       (log_Printf (Recycling_packages (length packagesToRecycle)) w2) of
                  (Some err, w3) \<Rightarrow> (Some err, w3)
                | (None, w3) \<Rightarrow> storage_Commit r (log_Printf Committing_changes w3))))"

subsection \<open>A storage that follows the spec's Content Store\<close>

text \<open>
  Modelled from the spec: the implementation of the storage is not among the files at
  hand. The spec's Content Store keeps the committed generation and the generation being
  built. Its streaming writer persists the bytes under the path and does not enforce the
  expected checksum; its checksum query fails with FileNotFound when the committed
  generation has no file at the path and with a ChecksumError for an unsupported
  algorithm, and is read-only; recycle carries a committed file over to the generation
  being built and fails when there is none; commit promotes the generation being built
  and discards everything else. The hash functions are a parameter.
\<close>

record content_store =
  committed :: "string \<rightharpoonup> bytes"
  in_progress :: "string \<rightharpoonup> bytes"

definition cs_streamingWriter :: "string \<Rightarrow> string \<Rightarrow> bytes \<Rightarrow> content_store \<Rightarrow> error option \<times> content_store" where
  "cs_streamingWriter path expectedChecksum body st =
     (None, st\<lparr>in_progress := (in_progress st)(path \<mapsto> body)\<rparr>)"

definition cs_checksum ::
  "(ChecksumType \<Rightarrow> bytes \<Rightarrow> string) \<Rightarrow> string \<Rightarrow> ChecksumType \<Rightarrow> content_store \<Rightarrow> error + string" where
  "cs_checksum hash path algorithm st =
     (case committed st path of
        None \<Rightarrow> Inl ErrFileNotFound
      | Some content \<Rightarrow>
          if algorithm = Unknown then Inl (Failure ''ChecksumError: unsupported algorithm'')
          else Inr (hash algorithm content))"

definition cs_recycle :: "string \<Rightarrow> content_store \<Rightarrow> error option \<times> content_store" where
  "cs_recycle path st =
     (case committed st path of
        None \<Rightarrow> (Some (Failure ''RecycleError''), st)
      | Some content \<Rightarrow> (None, st\<lparr>in_progress := (in_progress st)(path \<mapsto> content)\<rparr>))"

definition cs_commit :: "content_store \<Rightarrow> error option \<times> content_store" where
  "cs_commit st = (None, \<lparr>committed = in_progress st, in_progress = Map.empty\<rparr>)"

definition ContentStore :: "(ChecksumType \<Rightarrow> bytes \<Rightarrow> string) \<Rightarrow> content_store Storage" where
  "ContentStore hash =
     \<lparr>StoringMapper = cs_streamingWriter,
      Storage_Checksum = cs_checksum hash,
      Recycle = cs_recycle,
      Commit = cs_commit\<rparr>"

subsection \<open>The classification rules in the words of the spec\<close>

text \<open>
  An empty filter accepts every architecture, and noarch is always accepted. An accepted
  record is a download when the checksum query fails with FileNotFound or succeeds with a
  value other than the record's checksum, a recycle when the query succeeds with the
  record's checksum, and skipped on any other error of the query.
\<close>

datatype classification = download | recycle | skip | excluded

definition architecture_accepted :: "(string, bool) mapping \<Rightarrow> string \<Rightarrow> bool" where
  "architecture_accepted filt arch =
     (Mapping.is_empty filt \<or> arch = ''noarch'' \<or> Mapping.lookup filt arch = Some True)"

definition store_query :: "'st Syncer \<Rightarrow> 'st \<Rightarrow> XMLPackage \<Rightarrow> error + string" where
  "store_query r st pack =
     Storage_Checksum (storage r) (Href (Location pack))
       (checksumTypeMap_index (checksum_Type (Checksum pack))) st"

definition classify :: "'st Syncer \<Rightarrow> 'st \<Rightarrow> XMLPackage \<Rightarrow> classification" where
  "classify r st pack =
     (if architecture_accepted (archs r) (Arch pack) then
        (case store_query r st pack of
           Inl err \<Rightarrow> if err = ErrFileNotFound then download else skip
         | Inr v \<Rightarrow> if v = checksum_Checksum (Checksum pack) then recycle else download)
      else excluded)"

subsection \<open>A small repository\<close>

text \<open>
  A remote with an index of two entries (the primary manifest and one other metadata
  file), five packages, no signature file (404) and a key file; a syncer that accepts
  x86_64; a storage whose committed generation holds three of the packages. The stand-in
  for the hash functions tags the content with the algorithm.
\<close>

definition ex_pack :: "string \<Rightarrow> string \<Rightarrow> string \<Rightarrow> string \<Rightarrow> XMLPackage" where
  "ex_pack arch href ty digest =
     \<lparr>Arch = arch, Location = \<lparr>Href = href\<rparr>, Checksum = \<lparr>checksum_Type = ty, checksum_Checksum = digest\<rparr>\<rparr>"

definition ex_packages :: "XMLPackage list" where
  "ex_packages =
     [ex_pack ''x86_64'' ''a'' ''sha256'' ''2A'',
      ex_pack ''noarch'' ''b'' ''sha'' ''1B'',
      ex_pack ''x86_64'' ''c'' ''sha256'' ''2C'',
      ex_pack ''x86_64'' ''d'' ''md5'' ''5D'',
      ex_pack ''i386'' ''e'' ''sha1'' ''1E'']"

definition ex_hash :: "ChecksumType \<Rightarrow> bytes \<Rightarrow> string" where
  "ex_hash ty content = (case ty of Unknown \<Rightarrow> ''0'' | SHA1 \<Rightarrow> ''1'' | SHA256 \<Rightarrow> ''2'') @ content"

definition ex_index :: XMLRepomd where
  "ex_index =
     \<lparr>Data = [\<lparr>data_Type = ''primary'', data_Location = \<lparr>Href = ''p''\<rparr>\<rparr>,
              \<lparr>data_Type = ''other'', data_Location = \<lparr>Href = ''o''\<rparr>\<rparr>]\<rparr>"

definition ex_remote :: "string \<Rightarrow> error + bytes" where
  "ex_remote url =
     (if url = ''u/repodata/repomd.xml'' then Inr ''I''
      else if url = ''u/repodata/repomd.xml.key'' then Inr ''K''
      else if url = ''u/p'' then Inr ''P''
      else if url = ''u/o'' then Inr ''O''
      else if url = ''u/a'' then Inr ''A''
      else if url = ''u/b'' then Inr ''B''
      else if url = ''u/c'' then Inr ''C''
      else if url = ''u/d'' then Inr ''D''
      else if url = ''u/e'' then Inr ''E''
      else Inl (HttpError 404))"

definition ex_env :: env where
  "ex_env =
     \<lparr>httpGet = ex_remote,
      xml_Decode_repomd = (\<lambda>b. if b = ''I'' then Inr ex_index else Inl (Failure ''XML syntax error'')),
      gzip_NewReader = (\<lambda>b. if b = ''P'' then Inr ''M'' else Inl (Failure ''gzip: invalid header'')),
      xml_Decode_primary =
        (\<lambda>b. if b = ''M'' then Inr \<lparr>Packages = ex_packages\<rparr> else Inl (Failure ''XML syntax error''))\<rparr>"

definition ex_syncer :: "content_store Syncer" where
  "ex_syncer =
     \<lparr>Url = ''u'',
      archs = Mapping.update ''x86_64'' True Mapping.empty,
      storage = ContentStore ex_hash\<rparr>"

definition ex_store :: content_store where
  "ex_store =
     \<lparr>committed = [''b'' \<mapsto> ''B'', ''c'' \<mapsto> ''X'', ''d'' \<mapsto> ''D''],
      in_progress = Map.empty\<rparr>"

definition ex_world :: "content_store world" where
  "ex_world = \<lparr>store = ex_store, trace = []\<rparr>"

text \<open>The same syncer with an empty architecture filter.\<close>

definition ex_syncer_all :: "content_store Syncer" where
  "ex_syncer_all = ex_syncer\<lparr>archs := Mapping.empty\<rparr>"

text \<open>
  A remote whose index names no metadata file, with the answers to the two signature
  requests as parameters.
\<close>

definition ex_remote_bare :: "error + bytes \<Rightarrow> error + bytes \<Rightarrow> string \<Rightarrow> error + bytes" where
  "ex_remote_bare asc key url =
     (if url = ''u/repodata/repomd.xml'' then Inr ''I''
      else if url = ''u/repodata/repomd.xml.asc'' then asc
      else if url = ''u/repodata/repomd.xml.key'' then key
      else Inl (HttpError 404))"

definition ex_env_bare :: "error + bytes \<Rightarrow> error + bytes \<Rightarrow> env" where
  "ex_env_bare asc key =
     \<lparr>httpGet = ex_remote_bare asc key,
      xml_Decode_repomd = (\<lambda>b. Inr \<lparr>Data = []\<rparr>),
      gzip_NewReader = (\<lambda>b. Inl (Failure ''gzip: invalid header'')),
      xml_Decode_primary = (\<lambda>b. Inl (Failure ''XML syntax error''))\<rparr>"

subsection \<open>Reading a trace\<close>

text \<open>
  The calls that move data: the requests sent to the remote and the calls of Recycle and
  Commit. \<open>calls_since w w'\<close> lists those made after the state \<open>w\<close> up to the state \<open>w'\<close>.
  \<open>no_update w w'\<close> says that the run from \<open>w\<close> to \<open>w'\<close> only added events, and called
  neither Recycle nor Commit.
\<close>

fun is_call :: "event \<Rightarrow> bool" where
  "is_call (Get url) = True"
| "is_call (Recycled path) = True"
| "is_call Committed = True"
| "is_call (Log l) = False"
| "is_call (Store path checksum) = False"
| "is_call (Query path ty) = False"

fun is_update :: "event \<Rightarrow> bool" where
  "is_update (Recycled path) = True"
| "is_update Committed = True"
| "is_update (Get url) = False"
| "is_update (Log l) = False"
| "is_update (Store path checksum) = False"
| "is_update (Query path ty) = False"

definition calls_since :: "'st world \<Rightarrow> 'st world \<Rightarrow> event list" where
  "calls_since w w' = filter is_call (drop (length (trace w)) (trace w'))"

definition no_update :: "'st world \<Rightarrow> 'st world \<Rightarrow> bool" where
  "no_update w w' = (\<exists>evs. trace w' = trace w @ evs \<and> filter is_update evs = [])"

definition package_url :: "'st Syncer \<Rightarrow> XMLPackage \<Rightarrow> string" where
  "package_url r pack = Url r @ ''/'' @ Href (Location pack)"

text \<open>
  Variants of the small repository: a remote that fails the request for package c, and a
  storage whose Recycle fails.
\<close>

definition ex_env_c :: env where
  "ex_env_c = ex_env\<lparr>httpGet := (\<lambda>url. if url = ''u/c'' then Inl (HttpError 500) else ex_remote url)\<rparr>"

definition ex_syncer_norecycle :: "content_store Syncer" where
  "ex_syncer_norecycle =
     ex_syncer\<lparr>storage := (ContentStore ex_hash)\<lparr>Recycle := (\<lambda>path st. (Some (Failure ''RecycleError''), st))\<rparr>\<rparr>"

subsection \<open>What an unchanged remote serves\<close>

text \<open>
  The manifest that an index entry leads to, when its file can be fetched, unpacked and
  decoded; the manifests of the primary entries of an index, in document order; and the
  records of a manifest that pass the architecture filter.
\<close>

definition manifest_of :: "env \<Rightarrow> 'st Syncer \<Rightarrow> XMLData \<Rightarrow> XMLMetaData option" where
  "manifest_of en r d =
     (case httpGet en (Url r @ ''/'' @ Href (data_Location d)) of
        Inl e \<Rightarrow> None
      | Inr body \<Rightarrow>
          (case gzip_NewReader en body of
             Inl e \<Rightarrow> None
           | Inr gz \<Rightarrow> (case xml_Decode_primary en gz of Inl e \<Rightarrow> None | Inr primary \<Rightarrow> Some primary)))"

definition primary_manifests :: "env \<Rightarrow> 'st Syncer \<Rightarrow> XMLData list \<Rightarrow> XMLMetaData list" where
  "primary_manifests en r ds =
     List.map_filter (manifest_of en r) (filter (\<lambda>d. data_Type d = ''primary'') ds)"

definition accepted_records :: "'st Syncer \<Rightarrow> XMLMetaData \<Rightarrow> XMLPackage list" where
  "accepted_records r primary =
     filter (\<lambda>p. architecture_accepted (archs r) (Arch p)) (Packages primary)"

text \<open>
  A manifest is sound for a remote when its accepted records have distinct locations
  (the spec's invariant of a manifest) and checksum types of the table, and the bytes the
  remote serves for a record hash to the record's checksum.
\<close>

definition known_checksum_type :: "string \<Rightarrow> bool" where
  "known_checksum_type ty = (ty = ''sha'' \<or> ty = ''sha1'' \<or> ty = ''sha256'')"

definition served_as_listed :: "env \<Rightarrow> 'st Syncer \<Rightarrow> (ChecksumType \<Rightarrow> bytes \<Rightarrow> string) \<Rightarrow> XMLPackage \<Rightarrow> bool" where
  "served_as_listed en r hash p =
     (case httpGet en (package_url r p) of
        Inl e \<Rightarrow> True
      | Inr content \<Rightarrow>
          hash (checksumTypeMap_index (checksum_Type (Checksum p))) content =
            checksum_Checksum (Checksum p))"

definition sound_manifest ::
  "env \<Rightarrow> 'st Syncer \<Rightarrow> (ChecksumType \<Rightarrow> bytes \<Rightarrow> string) \<Rightarrow> XMLMetaData \<Rightarrow> bool" where
  "sound_manifest en r hash primary =
     (distinct (map (\<lambda>p. Href (Location p)) (accepted_records r primary)) \<and>
      list_all (\<lambda>p. known_checksum_type (checksum_Type (Checksum p)) \<and> served_as_listed en r hash p)
        (accepted_records r primary))"

text \<open>The errors of a fetch and of the index loop, as the remote and the decoders decide them.\<close>

definition fetch_error :: "env \<Rightarrow> 'st Syncer \<Rightarrow> string \<Rightarrow> error option" where
  "fetch_error en r path =
     (case httpGet en (Url r @ ''/'' @ path) of Inl e \<Rightarrow> Some e | Inr body \<Rightarrow> None)"

definition primary_error :: "env \<Rightarrow> 'st Syncer \<Rightarrow> string \<Rightarrow> error option" where
  "primary_error en r path =
     (case httpGet en (Url r @ ''/'' @ path) of
        Inl e \<Rightarrow> Some e
      | Inr body \<Rightarrow>
          (case gzip_NewReader en body of
             Inl e \<Rightarrow> Some e
           | Inr gz \<Rightarrow> (case xml_Decode_primary en gz of Inl e \<Rightarrow> Some e | Inr primary \<Rightarrow> None)))"

fun index_error :: "env \<Rightarrow> 'st Syncer \<Rightarrow> XMLData list \<Rightarrow> error option" where
  "index_error en r [] = None"
| "index_error en r (d # ds) =
     (case (if data_Type d = ''primary'' then primary_error en r (Href (data_Location d))
            else fetch_error en r (Href (data_Location d))) of
        Some e \<Rightarrow> Some e
      | None \<Rightarrow> index_error en r ds)"

definition signature_error :: "env \<Rightarrow> 'st Syncer \<Rightarrow> string \<Rightarrow> error option" where
  "signature_error en r path =
     (case fetch_error en r path of
        Some e \<Rightarrow> if HasSuffix (Error e) ''404'' then None else Some e
      | None \<Rightarrow> None)"

definition metadata_error :: "env \<Rightarrow> 'st Syncer \<Rightarrow> error option" where
  "metadata_error en r =
     (case httpGet en (Url r @ ''/'' @ repomdPath) of
        Inl e \<Rightarrow> Some e
      | Inr body \<Rightarrow>
          (case xml_Decode_repomd en body of
             Inl e \<Rightarrow> Some e
           | Inr repomd \<Rightarrow>
               (case index_error en r (Data repomd) of
                  Some e \<Rightarrow> Some e
                | None \<Rightarrow>
                    (case signature_error en r (repomdPath @ ''.asc'') of
                       Some e \<Rightarrow> Some e
                     | None \<Rightarrow> signature_error en r (repomdPath @ ''.key'')))))"

text \<open>
  A remote whose manifest lists package a with a checksum that the bytes it serves for
  a do not have, and a storage with nothing in it.
\<close>

definition ex_env_stale :: env where
  "ex_env_stale =
     \<lparr>httpGet = (\<lambda>url. if url = ''u/repodata/repomd.xml'' then Inr ''I''
                       else if url = ''u/p'' then Inr ''P''
                       else if url = ''u/a'' then Inr ''Z''
                       else Inl (HttpError 404)),
      xml_Decode_repomd = (\<lambda>b. Inr \<lparr>Data = [\<lparr>data_Type = ''primary'', data_Location = \<lparr>Href = ''p''\<rparr>\<rparr>]\<rparr>),
      gzip_NewReader = (\<lambda>b. Inr ''M''),
      xml_Decode_primary = (\<lambda>b. Inr \<lparr>Packages = [ex_pack ''x86_64'' ''a'' ''sha256'' ''2A'']\<rparr>)\<rparr>"

definition ex_world_empty :: "content_store world" where
  "ex_world_empty = \<lparr>store = \<lparr>committed = Map.empty, in_progress = Map.empty\<rparr>, trace = []\<rparr>"

text \<open>The small repository with a manifest that is sound for it.\<close>

definition ex_env_sound :: env where
  "ex_env_sound =
     ex_env\<lparr>xml_Decode_primary :=
       (\<lambda>b. Inr \<lparr>Packages = [ex_pack ''x86_64'' ''a'' ''sha256'' ''2A'',
                              ex_pack ''noarch'' ''b'' ''sha'' ''1B'',
                              ex_pack ''i386'' ''e'' ''sha1'' ''1E'']\<rparr>)\<rparr>"

text \<open>The two lists that the classification of a manifest against a storage state gives.\<close>

definition classified :: "'st Syncer \<Rightarrow> 'st \<Rightarrow> XMLMetaData \<Rightarrow> XMLPackage list \<times> XMLPackage list" where
  "classified r st primary =
     (filter (\<lambda>p. classify r st p = download) (Packages primary),
      filter (\<lambda>p. classify r st p = recycle) (Packages primary))"

section \<open>The storing reader of storage.go\<close>

text \<open>
  NewStoringReader wraps a reader so that what is read from it is also written to a file.
  The Go library pieces it is built from are modelled as the library documents and
  implements them: os.Create, bufio.Writer (Write, Flush) and io.TeeReader.
\<close>

subsection \<open>The file\<close>

text \<open>
  An open file: its name, the bytes persisted so far, and the room the device has left
  for it. A write that does not fit persists what fits and fails.
\<close>

record os_File =
  file_name :: string
  persisted :: bytes
  room :: nat

definition File_Write :: "bytes \<Rightarrow> os_File \<Rightarrow> nat \<times> error option \<times> os_File" where
  "File_Write p f =
     (if length p \<le> room f then
        (length p, None, f\<lparr>persisted := persisted f @ p, room := room f - length p\<rparr>)
      else
        (room f, Some (Failure ''no space left on device''),
         f\<lparr>persisted := persisted f @ take (room f) p, room := 0\<rparr>))"

text \<open>
  The operating system: path.Join, and os.Create, which fails or creates the file or
  truncates it and then yields the room of the device for it.
\<close>

record os =
  path_Join :: "string \<Rightarrow> string \<Rightarrow> string"
  os_Create :: "string \<Rightarrow> error + nat"

subsection \<open>bufio.Writer\<close>

text \<open>
  \<open>buf\<close> is the filled part \<^verbatim>\<open>b.buf[0:b.n]\<close> of the buffer and \<open>buf_len\<close> the length of the
  whole buffer; \<open>b_err\<close> is the error \<^verbatim>\<open>b.err\<close> that a failed write leaves behind for all later calls.
\<close>

record bufio_Writer =
  b_err :: "error option"
  buf :: bytes
  buf_len :: nat
  wr :: os_File

definition defaultBufSize :: nat where
  "defaultBufSize = 4096"

definition bufio_NewWriter :: "os_File \<Rightarrow> bufio_Writer" where
  "bufio_NewWriter f = \<lparr>b_err = None, buf = [], buf_len = defaultBufSize, wr = f\<rparr>"

definition Available :: "bufio_Writer \<Rightarrow> nat" where
  "Available b = buf_len b - length (buf b)"

definition Buffered :: "bufio_Writer \<Rightarrow> nat" where
  "Buffered b = length (buf b)"

definition ErrShortWrite :: error where
  "ErrShortWrite = Failure ''short write''"

definition Flush :: "bufio_Writer \<Rightarrow> error option \<times> bufio_Writer" where
  "Flush b =
     (case b_err b of
        Some e \<Rightarrow> (Some e, b)
      | None \<Rightarrow>
          if buf b = [] then (None, b)
          else
            (case File_Write (buf b) (wr b) of
               (n, werr, f) \<Rightarrow>
                 (case (if n < length (buf b) \<and> werr = None then Some ErrShortWrite else werr) of
                    Some e \<Rightarrow> (Some e, b\<lparr>b_err := Some e, buf := drop n (buf b), wr := f\<rparr>)
                  | None \<Rightarrow> (None, b\<lparr>buf := [], wr := f\<rparr>))))"

text \<open>
  The loop of Write: while the bytes do not fit the buffer and no error is pending, a
  write into an empty buffer goes to the file directly, otherwise the buffer is filled up
  and flushed. \<open>nn\<close> counts the bytes taken so far.
\<close>

function bufio_Write_loop :: "bytes \<Rightarrow> bufio_Writer \<Rightarrow> nat \<Rightarrow> nat \<times> error option \<times> bufio_Writer" where
  "bufio_Write_loop p b nn =
     (if length p > Available b \<and> b_err b = None then
        (if Buffered b = 0 then
           (case File_Write p (wr b) of
              (n, werr, f) \<Rightarrow> bufio_Write_loop (drop n p) (b\<lparr>b_err := werr, wr := f\<rparr>) (nn + n))
         else
           (let n = min (Available b) (length p) in
            bufio_Write_loop (drop n p) (snd (Flush (b\<lparr>buf := buf b @ take n p\<rparr>))) (nn + n)))
      else if b_err b \<noteq> None then (nn, b_err b, b)
      else (nn + length p, None, b\<lparr>buf := buf b @ p\<rparr>))"
  by pat_completeness auto
termination
  apply (relation "measures [\<lambda>(p, b, nn). if b_err b = None then 1 else 0,
                           \<lambda>(p, b, nn). if buf b = [] then 0 else 1,
                           \<lambda>(p, b, nn). length p]")
    apply simp
   apply (auto simp: File_Write_def Buffered_def Available_def split: if_splits)[1]
  apply (auto simp: Flush_def File_Write_def Buffered_def Available_def ErrShortWrite_def
          split: if_splits option.splits)
  done

declare bufio_Write_loop.simps [simp del]

definition bufio_Write :: "bytes \<Rightarrow> bufio_Writer \<Rightarrow> nat \<times> error option \<times> bufio_Writer" where
  "bufio_Write p b = bufio_Write_loop p b 0"

subsection \<open>The reader that is wrapped\<close>

text \<open>
  An io.ReadCloser is any value with the two methods: a parameter, over any type of
  reader state. Read takes the length of the caller's buffer and returns the bytes it
  put there.
\<close>

record 'r ReadCloser =
  Read :: "nat \<Rightarrow> 'r \<Rightarrow> bytes \<times> error option \<times> 'r"
  Close :: "'r \<Rightarrow> error option \<times> 'r"

subsection \<open>NewStoringReader, Read and Close\<close>

text \<open>The Storage struct of storage.go: a local directory.\<close>

record Storage_directory =
  directory :: string

text \<open>The storingReader: its reader and its writer; the teeReader is made of the two.\<close>

record 'r storingReader =
  reader :: 'r
  writer :: bufio_Writer

definition NewStoringReader ::
  "os \<Rightarrow> Storage_directory \<Rightarrow> string \<Rightarrow> 'r \<Rightarrow> error + 'r storingReader" where
  "NewStoringReader sys s filename rd =
     (case os_Create sys (path_Join sys (directory s) filename) of
        Inl e \<Rightarrow> Inl e
      | Inr space \<Rightarrow>
          Inr \<lparr>reader = rd,
               writer = bufio_NewWriter
                 \<lparr>file_name = path_Join sys (directory s) filename, persisted = [], room = space\<rparr>\<rparr>)"

text \<open>
  The Read of io.TeeReader: read from the reader, write what was read to the writer, and
  return the writer's count and error when the write fails.
\<close>

definition teeReader_Read ::
  "'r ReadCloser \<Rightarrow> nat \<Rightarrow> 'r storingReader \<Rightarrow> bytes \<times> error option \<times> 'r storingReader" where
  "teeReader_Read ops len t =
     (case Read ops len (reader t) of
        (p, rerr, rd) \<Rightarrow>
          if length p > 0 then
            (case bufio_Write p (writer t) of
               (n, werr, b) \<Rightarrow>
                 (case werr of
                    Some e \<Rightarrow> (take n p, Some e, t\<lparr>reader := rd, writer := b\<rparr>)
                  | None \<Rightarrow> (p, rerr, t\<lparr>reader := rd, writer := b\<rparr>)))
          else (p, rerr, t\<lparr>reader := rd\<rparr>))"

definition storingReader_Read ::
  "'r ReadCloser \<Rightarrow> nat \<Rightarrow> 'r storingReader \<Rightarrow> bytes \<times> error option \<times> 'r storingReader" where
  "storingReader_Read ops len t = teeReader_Read ops len t"

definition storingReader_Close ::
  "'r ReadCloser \<Rightarrow> 'r storingReader \<Rightarrow> error option \<times> 'r storingReader" where
  "storingReader_Close ops t =
     (case Close ops (reader t) of
        (Some e, rd) \<Rightarrow> (Some e, t\<lparr>reader := rd\<rparr>)
      | (None, rd) \<Rightarrow>
          (case Flush (writer t) of
             (ferr, b) \<Rightarrow> (ferr, t\<lparr>reader := rd, writer := b\<rparr>)))"

text \<open>A caller's sequence of Read calls, with the lengths of its buffers.\<close>

fun Reads ::
  "'r ReadCloser \<Rightarrow> nat list \<Rightarrow> 'r storingReader \<Rightarrow> (bytes \<times> error option) list \<times> 'r storingReader" where
  "Reads ops [] t = ([], t)"
| "Reads ops (len # lens) t =
     (case storingReader_Read ops len t of
        (p, e, t1) \<Rightarrow> (case Reads ops lens t1 of (results, t2) \<Rightarrow> ((p, e) # results, t2)))"

text \<open>
  A reader over a byte string: Read hands out the next bytes and reports the end of the
  stream; Close returns the error it was made with, and counts its calls.
\<close>

record bytes_reader =
  remaining :: bytes
  close_error :: "error option"
  closed :: nat

definition EOF :: error where
  "EOF = Failure ''EOF''"

definition bytes_ReadCloser :: "bytes_reader ReadCloser" where
  "bytes_ReadCloser =
     \<lparr>Read = (\<lambda>len r.
         if remaining r = [] then ([], Some EOF, r)
         else (take len (remaining r), None, r\<lparr>remaining := drop len (remaining r)\<rparr>)),
      Close = (\<lambda>r. (close_error r, r\<lparr>closed := closed r + 1\<rparr>))\<rparr>"

definition ex_os :: "nat \<Rightarrow> os" where
  "ex_os space = \<lparr>path_Join = (\<lambda>dir name. dir @ ''/'' @ name), os_Create = (\<lambda>path. Inr space)\<rparr>"

text \<open>What the writer holds: the bytes persisted to its file and those in its buffer.\<close>

definition written :: "bufio_Writer \<Rightarrow> bytes" where
  "written b = persisted (wr b) @ buf b"

text \<open>A reader of three bytes, and the storing reader NewStoringReader makes of it.\<close>

definition ex_reader :: "error option \<Rightarrow> bytes_reader" where
  "ex_reader ce = \<lparr>remaining = ''abc'', close_error = ce, closed = 0\<rparr>"

definition ex_storingReader :: "nat \<Rightarrow> error option \<Rightarrow> bytes_reader storingReader" where
  "ex_storingReader space ce =
     \<lparr>reader = ex_reader ce,
      writer = bufio_NewWriter \<lparr>file_name = ''d/f'', persisted = [], room = space\<rparr>\<rparr>"

text \<open>The small repository with a manifest that holds the same entry twice.\<close>

definition ex_env_dup :: env where
  "ex_env_dup =
     ex_env\<lparr>xml_Decode_primary :=
       (\<lambda>b. Inr \<lparr>Packages = [ex_pack ''x86_64'' ''a'' ''sha256'' ''2A'',
                              ex_pack ''x86_64'' ''a'' ''sha256'' ''2A'']\<rparr>)\<rparr>"

section \<open>Properties of the syncer\<close>

subsection \<open>Basic facts about the trace and the pipeline\<close>

lemma store_emit [simp]: "store (emit e w) = store w"
  by (simp add: emit_def)

lemma store_log_Printf [simp]: "store (log_Printf l w) = store w"
  by (simp add: log_Printf_def)

lemma trace_emit [simp]: "trace (emit e w) = trace w @ [e]"
  by (simp add: emit_def)

lemma trace_log_Printf [simp]: "trace (log_Printf l w) = trace w @ [Log l]"
  by (simp add: log_Printf_def)

lemma downloadStoreApply_stored:
  assumes "httpGet en (Url r @ ''/'' @ path) = Inr body"
    and "StoringMapper (storage r) path checksum body (store w) = (None, st1)"
  shows "downloadStoreApply en r path checksum f c w =
           f body c (emit (Store path checksum)
             (emit (Get (Url r @ ''/'' @ path)) (log_Printf (Downloading path) w)\<lparr>store := st1\<rparr>))"
  using assms
  by (simp add: downloadStoreApply_def DownloadApply_def Compose_def storage_StoringMapper_def)

subsection \<open>The classification loop computes the rules of the spec\<close>

lemma processPrimary_pack_lists:
  "processPrimary_pack r (Mapping.is_empty (archs r)) pack (dl, rc, w) = (dl', rc', w') \<Longrightarrow>
     dl' = dl @ (if classify r (store w) pack = download then [pack] else []) \<and>
     rc' = rc @ (if classify r (store w) pack = recycle then [pack] else []) \<and>
     store w' = store w"
  by (auto simp: processPrimary_pack_def classify_def architecture_accepted_def store_query_def
        Let_def split: sum.splits if_splits)

lemma processPrimary_loop_lists:
  "processPrimary_loop r (Mapping.is_empty (archs r)) packs (dl, rc, w) = (dl', rc', w') \<Longrightarrow>
     dl' = dl @ filter (\<lambda>p. classify r (store w) p = download) packs \<and>
     rc' = rc @ filter (\<lambda>p. classify r (store w) p = recycle) packs \<and>
     store w' = store w"
proof (induction packs arbitrary: dl rc w)
  case Nil
  then show ?case by simp
next
  case (Cons pack rest)
  obtain dl1 rc1 w1 where step:
    "processPrimary_pack r (Mapping.is_empty (archs r)) pack (dl, rc, w) = (dl1, rc1, w1)"
    by (metis prod_cases3)
  from Cons.prems step
  have "processPrimary_loop r (Mapping.is_empty (archs r)) rest (dl1, rc1, w1) = (dl', rc', w')"
    by simp
  from Cons.IH [OF this] processPrimary_pack_lists [OF step] show ?case
    by simp
qed

lemma processPrimary_consumer_decoded:
  assumes "gzip_NewReader en body = Inr gz" and "xml_Decode_primary en gz = Inr primary"
  shows "\<exists>w'. processPrimary_consumer en r body ([], []) w =
           (None,
            (filter (\<lambda>p. classify r (store w) p = download) (Packages primary),
             filter (\<lambda>p. classify r (store w) p = recycle) (Packages primary)), w') \<and>
          store w' = store w"
proof -
  obtain dl rc w' where loop:
    "processPrimary_loop r (Mapping.is_empty (archs r)) (Packages primary) ([], [], w) = (dl, rc, w')"
    by (metis prod_cases3)
  from processPrimary_loop_lists [OF loop] loop assms show ?thesis
    by (simp add: processPrimary_consumer_def)
qed

lemma processPrimary_decoded:
  assumes "httpGet en (Url r @ ''/'' @ path) = Inr body"
    and "StoringMapper (storage r) path [] body (store w) = (None, st1)"
    and "gzip_NewReader en body = Inr gz" and "xml_Decode_primary en gz = Inr primary"
  shows "\<exists>w'. processPrimary en r path w =
           (filter (\<lambda>p. classify r st1 p = download) (Packages primary),
            filter (\<lambda>p. classify r st1 p = recycle) (Packages primary), None, w') \<and>
          store w' = st1"
proof -
  let ?w1 = "emit (Store path [])
    (emit (Get (Url r @ ''/'' @ path)) (log_Printf (Downloading path) w)\<lparr>store := st1\<rparr>)"
  have st: "store ?w1 = st1" by simp
  from processPrimary_consumer_decoded [OF assms(3,4), of r ?w1] obtain w' where
    "processPrimary_consumer en r body ([], []) ?w1 =
           (None,
            (filter (\<lambda>p. classify r st1 p = download) (Packages primary),
             filter (\<lambda>p. classify r st1 p = recycle) (Packages primary)), w')" "store w' = st1"
    unfolding st by blast
  then show ?thesis
    by (simp add: processPrimary_def downloadStoreApply_stored [OF assms(1,2)])
qed

lemma ex_get_primary: "httpGet ex_env (Url ex_syncer @ ''/'' @ ''p'') = Inr ''P''"
  by (simp add: ex_env_def ex_syncer_def ex_remote_def)

lemma ex_stored: "StoringMapper (storage ex_syncer) ''p'' [] ''P'' (store ex_world) =
   (None, ex_store\<lparr>in_progress := [''p'' \<mapsto> ''P'']\<rparr>)"
  by (simp add: ex_syncer_def ContentStore_def cs_streamingWriter_def ex_world_def ex_store_def)

lemma ex_gzip: "gzip_NewReader ex_env ''P'' = Inr ''M''"
  by (simp add: ex_env_def)

lemma ex_decode: "xml_Decode_primary ex_env ''M'' = Inr \<lparr>Packages = ex_packages\<rparr>"
  by (simp add: ex_env_def)

text \<open>
  C1. When the primary manifest has been fetched, stored and decoded, every record of it
  that passes the architecture filter is classified by the answer \<open>q\<close> of the storage's
  checksum query: FileNotFound puts it in toDownload; any other error puts it in neither
  list; a checksum other than the record's puts it in toDownload; the record's checksum
  puts it in toRecycle.
\<close>

theorem processPrimary_classification:
  assumes "httpGet en (Url r @ ''/'' @ path) = Inr body"
    and "StoringMapper (storage r) path [] body (store w) = (None, st1)"
    and "gzip_NewReader en body = Inr gz" and "xml_Decode_primary en gz = Inr primary"
    and "pack \<in> set (Packages primary)"
    and "Mapping.is_empty (archs r) \<or> Arch pack = ''noarch'' \<or>
         Mapping.lookup (archs r) (Arch pack) = Some True"
    and "processPrimary en r path w = (toDownload, toRecycle, err, w')"
    and "q = Storage_Checksum (storage r) (Href (Location pack))
               (checksumTypeMap_index (checksum_Type (Checksum pack))) st1"
  shows "(q = Inl ErrFileNotFound \<longrightarrow> pack \<in> set toDownload \<and> pack \<notin> set toRecycle) \<and>
         (\<forall>e. q = Inl e \<and> e \<noteq> ErrFileNotFound \<longrightarrow>
              pack \<notin> set toDownload \<and> pack \<notin> set toRecycle) \<and>
         (\<forall>v. q = Inr v \<and> v \<noteq> checksum_Checksum (Checksum pack) \<longrightarrow>
              pack \<in> set toDownload \<and> pack \<notin> set toRecycle) \<and>
         (q = Inr (checksum_Checksum (Checksum pack)) \<longrightarrow>
              pack \<in> set toRecycle \<and> pack \<notin> set toDownload)"
proof -
  from processPrimary_decoded [OF assms(1-4)] assms(7)
  have dl: "toDownload = filter (\<lambda>p. classify r st1 p = download) (Packages primary)"
    and rc: "toRecycle = filter (\<lambda>p. classify r st1 p = recycle) (Packages primary)"
    by auto
  have acc: "architecture_accepted (archs r) (Arch pack)"
    using assms(6) by (simp add: architecture_accepted_def)
  show ?thesis
    unfolding dl rc using assms(5) acc assms(8)
    by (auto simp: classify_def store_query_def)
qed

theorem processPrimary_classification_witness:
  "ex_pack ''x86_64'' ''a'' ''sha256'' ''2A'' \<in> set (fst (processPrimary ex_env ex_syncer ''p'' ex_world)) \<and>
   ex_pack ''x86_64'' ''a'' ''sha256'' ''2A'' \<notin> set (fst (snd (processPrimary ex_env ex_syncer ''p'' ex_world))) \<and>
   ex_pack ''x86_64'' ''d'' ''md5'' ''5D'' \<notin> set (fst (processPrimary ex_env ex_syncer ''p'' ex_world)) \<and>
   ex_pack ''x86_64'' ''d'' ''md5'' ''5D'' \<notin> set (fst (snd (processPrimary ex_env ex_syncer ''p'' ex_world))) \<and>
   ex_pack ''x86_64'' ''c'' ''sha256'' ''2C'' \<in> set (fst (processPrimary ex_env ex_syncer ''p'' ex_world)) \<and>
   ex_pack ''x86_64'' ''c'' ''sha256'' ''2C'' \<notin> set (fst (snd (processPrimary ex_env ex_syncer ''p'' ex_world))) \<and>
   ex_pack ''noarch'' ''b'' ''sha'' ''1B'' \<in> set (fst (snd (processPrimary ex_env ex_syncer ''p'' ex_world))) \<and>
   ex_pack ''noarch'' ''b'' ''sha'' ''1B'' \<notin> set (fst (processPrimary ex_env ex_syncer ''p'' ex_world))"
proof -
  obtain dl rc err w' where run: "processPrimary ex_env ex_syncer ''p'' ex_world = (dl, rc, err, w')"
    by (metis prod_cases4)
  note rule = processPrimary_classification [OF ex_get_primary ex_stored ex_gzip ex_decode _ _ run refl]
  show ?thesis
    using rule [of "ex_pack ''x86_64'' ''a'' ''sha256'' ''2A''"]
      rule [of "ex_pack ''x86_64'' ''d'' ''md5'' ''5D''"]
      rule [of "ex_pack ''x86_64'' ''c'' ''sha256'' ''2C''"]
      rule [of "ex_pack ''noarch'' ''b'' ''sha'' ''1B''"]
    unfolding run
    by (simp add: ex_packages_def ex_pack_def ex_syncer_def ContentStore_def cs_checksum_def
          ex_store_def checksumTypeMap_index_def checksumTypeMap_def ex_hash_def)
qed

subsection \<open>The architecture filter\<close>

lemma processPrimary_pack_excluded:
  assumes "\<not> Mapping.is_empty (archs r)" and "Arch pack \<noteq> ''noarch''"
    and "Mapping.lookup (archs r) (Arch pack) \<noteq> Some True"
  shows "processPrimary_pack r (Mapping.is_empty (archs r)) pack s = s"
  using assms by (simp add: processPrimary_pack_def split: prod.splits)

lemma processPrimary_loop_append:
  "processPrimary_loop r a (xs @ ys) s = processPrimary_loop r a ys (processPrimary_loop r a xs s)"
  by (induction xs arbitrary: s) simp_all

text \<open>
  C4. With an empty filter, or for a record of architecture noarch, the loop body takes
  the record on: it queries the storage and the record ends in toDownload, in toRecycle
  or in the log as skipped. A record whose architecture is not noarch and is not mapped
  to true by a non-empty filter leaves the lists, the storage and the trace (so also the
  log) as they were: the loop runs as if the manifest did not hold the record.
\<close>

theorem architecture_filter:
  "(Mapping.is_empty (archs r) \<or> Arch pack = ''noarch'' \<longrightarrow>
      (\<exists>dl' rc' evs. processPrimary_pack r (Mapping.is_empty (archs r)) pack (dl, rc, w) =
         (dl', rc', w\<lparr>trace := trace w @
            Query (Href (Location pack)) (checksumTypeMap_index (checksum_Type (Checksum pack))) # evs\<rparr>) \<and>
         (pack \<in> set dl' \<or> pack \<in> set rc' \<or> Log Package_skipped \<in> set evs))) \<and>
   (\<not> Mapping.is_empty (archs r) \<and> Arch pack \<noteq> ''noarch'' \<and>
    Mapping.lookup (archs r) (Arch pack) \<noteq> Some True \<longrightarrow>
      processPrimary_pack r (Mapping.is_empty (archs r)) pack (dl, rc, w) = (dl, rc, w) \<and>
      processPrimary_loop r (Mapping.is_empty (archs r)) (before @ pack # after) (dl, rc, w) =
        processPrimary_loop r (Mapping.is_empty (archs r)) (before @ after) (dl, rc, w) \<and>
      classify r st pack = excluded)"
proof (intro conjI impI)
  assume "Mapping.is_empty (archs r) \<or> Arch pack = ''noarch''"
  then show "\<exists>dl' rc' evs. processPrimary_pack r (Mapping.is_empty (archs r)) pack (dl, rc, w) =
         (dl', rc', w\<lparr>trace := trace w @
            Query (Href (Location pack)) (checksumTypeMap_index (checksum_Type (Checksum pack))) # evs\<rparr>) \<and>
         (pack \<in> set dl' \<or> pack \<in> set rc' \<or> Log Package_skipped \<in> set evs)"
    by (auto simp: processPrimary_pack_def Let_def emit_def log_Printf_def split: sum.splits)
next
  assume ex: "\<not> Mapping.is_empty (archs r) \<and> Arch pack \<noteq> ''noarch'' \<and>
    Mapping.lookup (archs r) (Arch pack) \<noteq> Some True"
  then have step: "processPrimary_pack r (Mapping.is_empty (archs r)) pack s = s" for s
    using processPrimary_pack_excluded [of r pack s] by blast
  from step show "processPrimary_pack r (Mapping.is_empty (archs r)) pack (dl, rc, w) = (dl, rc, w)" .
  from step show "processPrimary_loop r (Mapping.is_empty (archs r)) (before @ pack # after) (dl, rc, w) =
        processPrimary_loop r (Mapping.is_empty (archs r)) (before @ after) (dl, rc, w)"
    by (simp add: processPrimary_loop_append)
  from ex show "classify r st pack = excluded"
    by (simp add: classify_def architecture_accepted_def)
qed

theorem architecture_filter_witness:
  "(\<exists>dl' rc' evs. processPrimary_pack ex_syncer_all (Mapping.is_empty (archs ex_syncer_all))
        (ex_pack ''i386'' ''e'' ''sha1'' ''1E'') ([], [], ex_world) =
         (dl', rc', ex_world\<lparr>trace := trace ex_world @ Query ''e'' SHA1 # evs\<rparr>) \<and>
         (ex_pack ''i386'' ''e'' ''sha1'' ''1E'' \<in> set dl' \<or> ex_pack ''i386'' ''e'' ''sha1'' ''1E'' \<in> set rc' \<or>
          Log Package_skipped \<in> set evs)) \<and>
   (\<exists>dl' rc' evs. processPrimary_pack ex_syncer (Mapping.is_empty (archs ex_syncer))
        (ex_pack ''noarch'' ''b'' ''sha'' ''1B'') ([], [], ex_world) =
         (dl', rc', ex_world\<lparr>trace := trace ex_world @ Query ''b'' SHA1 # evs\<rparr>) \<and>
         (ex_pack ''noarch'' ''b'' ''sha'' ''1B'' \<in> set dl' \<or> ex_pack ''noarch'' ''b'' ''sha'' ''1B'' \<in> set rc' \<or>
          Log Package_skipped \<in> set evs)) \<and>
   processPrimary_pack ex_syncer (Mapping.is_empty (archs ex_syncer))
        (ex_pack ''i386'' ''e'' ''sha1'' ''1E'') ([], [], ex_world) = ([], [], ex_world) \<and>
   processPrimary_loop ex_syncer (Mapping.is_empty (archs ex_syncer))
        ([ex_pack ''noarch'' ''b'' ''sha'' ''1B''] @ ex_pack ''i386'' ''e'' ''sha1'' ''1E'' # []) ([], [], ex_world) =
     processPrimary_loop ex_syncer (Mapping.is_empty (archs ex_syncer))
        ([ex_pack ''noarch'' ''b'' ''sha'' ''1B''] @ []) ([], [], ex_world)"
  using architecture_filter [of ex_syncer_all "ex_pack ''i386'' ''e'' ''sha1'' ''1E''" "[]" "[]" ex_world "[]" "[]" ex_store]
    architecture_filter [of ex_syncer "ex_pack ''noarch'' ''b'' ''sha'' ''1B''" "[]" "[]" ex_world "[]" "[]" ex_store]
    architecture_filter [of ex_syncer "ex_pack ''i386'' ''e'' ''sha1'' ''1E''" "[]" "[]" ex_world
       "[ex_pack ''noarch'' ''b'' ''sha'' ''1B'']" "[]" ex_store]
  by (simp add: ex_syncer_all_def ex_syncer_def ex_pack_def checksumTypeMap_index_def checksumTypeMap_def)

subsection \<open>The two lists partition the classified records\<close>

lemma filter_as_positions:
  "filter P xs = map ((!) xs) (filter (\<lambda>i. P (xs ! i)) [0..<length xs])"
proof -
  have "filter P xs = filter P (map ((!) xs) [0..<length xs])"
    by (simp add: map_nth)
  also have "\<dots> = map ((!) xs) (filter (P \<circ> (!) xs) [0..<length xs])"
    by (rule filter_map)
  finally show ?thesis by (simp add: comp_def)
qed

lemma count_list_filter_le: "count_list (filter P xs) x \<le> count_list xs x"
  by (induction xs) auto

text \<open>
  C9 (amended). No record is in both lists of processPrimary. Each list is a subsequence
  of the manifest, so it keeps the document order, and it holds a record at most as often
  as the manifest does: no record is twice in a list when the manifest holds none twice.
  The lists are the manifest's entries at two disjoint, strictly increasing lists of
  positions, which together are the positions of the entries classified download or
  recycle.
\<close>

theorem processPrimary_partition:
  assumes "httpGet en (Url r @ ''/'' @ path) = Inr body"
    and "StoringMapper (storage r) path [] body (store w) = (None, st1)"
    and "gzip_NewReader en body = Inr gz" and "xml_Decode_primary en gz = Inr primary"
    and "processPrimary en r path w = (toDownload, toRecycle, err, w')"
  shows "(\<exists>is js.
           toDownload = map ((!) (Packages primary)) is \<and>
           toRecycle = map ((!) (Packages primary)) js \<and>
           sorted_wrt (<) is \<and> sorted_wrt (<) js \<and> set is \<inter> set js = {} \<and>
           set is \<union> set js =
             {i. i < length (Packages primary) \<and>
                 (classify r st1 (Packages primary ! i) = download \<or>
                  classify r st1 (Packages primary ! i) = recycle)}) \<and>
         set toDownload \<inter> set toRecycle = {} \<and>
         subseq toDownload (Packages primary) \<and> subseq toRecycle (Packages primary) \<and>
         (\<forall>p. count_list toDownload p \<le> count_list (Packages primary) p \<and>
              count_list toRecycle p \<le> count_list (Packages primary) p) \<and>
         (distinct (Packages primary) \<longrightarrow> distinct toDownload \<and> distinct toRecycle)"
proof -
  let ?ps = "Packages primary"
  let ?is = "filter (\<lambda>i. classify r st1 (?ps ! i) = download) [0..<length ?ps]"
  let ?js = "filter (\<lambda>i. classify r st1 (?ps ! i) = recycle) [0..<length ?ps]"
  from processPrimary_decoded [OF assms(1-4)] assms(5)
  have dl: "toDownload = filter (\<lambda>p. classify r st1 p = download) ?ps"
    and rc: "toRecycle = filter (\<lambda>p. classify r st1 p = recycle) ?ps"
    by auto
  have "toDownload = map ((!) ?ps) ?is"
    unfolding dl by (rule filter_as_positions)
  moreover have "toRecycle = map ((!) ?ps) ?js"
    unfolding rc by (rule filter_as_positions)
  moreover have "sorted_wrt (<) ?is" "sorted_wrt (<) ?js"
    by (simp_all add: sorted_wrt_filter)
  moreover have "set ?is \<inter> set ?js = {}"
    by auto
  moreover have "set ?is \<union> set ?js =
      {i. i < length ?ps \<and> (classify r st1 (?ps ! i) = download \<or> classify r st1 (?ps ! i) = recycle)}"
    by auto
  ultimately have positions: "\<exists>is js.
           toDownload = map ((!) ?ps) is \<and> toRecycle = map ((!) ?ps) js \<and>
           sorted_wrt (<) is \<and> sorted_wrt (<) js \<and> set is \<inter> set js = {} \<and>
           set is \<union> set js =
             {i. i < length ?ps \<and>
                 (classify r st1 (?ps ! i) = download \<or> classify r st1 (?ps ! i) = recycle)}"
    by blast
  have "set toDownload \<inter> set toRecycle = {}"
    unfolding dl rc by auto
  moreover have "subseq toDownload ?ps" "subseq toRecycle ?ps"
    unfolding dl rc by simp_all
  moreover have "distinct ?ps \<longrightarrow> distinct toDownload \<and> distinct toRecycle"
    unfolding dl rc by simp
  moreover have "\<forall>p. count_list toDownload p \<le> count_list ?ps p \<and>
      count_list toRecycle p \<le> count_list ?ps p"
    unfolding dl rc by (simp add: count_list_filter_le)
  ultimately show ?thesis
    using positions by blast
qed

text \<open>
  C9, as stated, fails for a manifest that holds the same entry twice: with no local file
  the record is twice in toDownload.
\<close>

theorem processPrimary_partition_counterexample:
  "xml_Decode_primary ex_env_dup ''M'' =
     Inr \<lparr>Packages = [ex_pack ''x86_64'' ''a'' ''sha256'' ''2A'', ex_pack ''x86_64'' ''a'' ''sha256'' ''2A'']\<rparr> \<and>
   fst (processPrimary ex_env_dup ex_syncer ''p'' ex_world) =
     [ex_pack ''x86_64'' ''a'' ''sha256'' ''2A'', ex_pack ''x86_64'' ''a'' ''sha256'' ''2A''] \<and>
   \<not> distinct (fst (processPrimary ex_env_dup ex_syncer ''p'' ex_world))"
  by (simp add: ex_env_dup_def ex_env_def ex_remote_def ex_syncer_def ex_world_def ex_store_def
        ex_pack_def ex_hash_def ContentStore_def cs_streamingWriter_def cs_checksum_def
        processPrimary_def processPrimary_consumer_def processPrimary_pack_def downloadStoreApply_def
        DownloadApply_def Compose_def storage_StoringMapper_def checksumTypeMap_index_def
        checksumTypeMap_def emit_def log_Printf_def Let_def)

theorem processPrimary_partition_witness:
  "(\<exists>is js.
     fst (processPrimary ex_env ex_syncer ''p'' ex_world) = map ((!) ex_packages) is \<and>
     fst (snd (processPrimary ex_env ex_syncer ''p'' ex_world)) = map ((!) ex_packages) js \<and>
     sorted_wrt (<) is \<and> sorted_wrt (<) js \<and> set is \<inter> set js = {} \<and>
     set is \<union> set js =
       {i. i < length ex_packages \<and>
           (classify ex_syncer (ex_store\<lparr>in_progress := [''p'' \<mapsto> ''P'']\<rparr>) (ex_packages ! i) = download \<or>
            classify ex_syncer (ex_store\<lparr>in_progress := [''p'' \<mapsto> ''P'']\<rparr>) (ex_packages ! i) = recycle)}) \<and>
   set (fst (processPrimary ex_env ex_syncer ''p'' ex_world)) \<inter>
     set (fst (snd (processPrimary ex_env ex_syncer ''p'' ex_world))) = {} \<and>
   subseq (fst (processPrimary ex_env ex_syncer ''p'' ex_world)) ex_packages \<and>
   subseq (fst (snd (processPrimary ex_env ex_syncer ''p'' ex_world))) ex_packages \<and>
   count_list (fst (processPrimary ex_env ex_syncer ''p'' ex_world))
       (ex_pack ''x86_64'' ''a'' ''sha256'' ''2A'') \<le>
     count_list ex_packages (ex_pack ''x86_64'' ''a'' ''sha256'' ''2A'') \<and>
   distinct (fst (processPrimary ex_env ex_syncer ''p'' ex_world)) \<and>
   distinct (fst (snd (processPrimary ex_env ex_syncer ''p'' ex_world)))"
proof -
  obtain dl rc err w' where run: "processPrimary ex_env ex_syncer ''p'' ex_world = (dl, rc, err, w')"
    by (metis prod_cases4)
  have "distinct (Packages \<lparr>Packages = ex_packages\<rparr>)"
    by (simp add: ex_packages_def ex_pack_def)
  with processPrimary_partition [OF ex_get_primary ex_stored ex_gzip ex_decode run]
  show ?thesis
    unfolding run by simp
qed


subsection \<open>Checksum types outside the table\<close>

lemma checksumTypeMap_index_other:
  "ty \<noteq> ''sha'' \<Longrightarrow> ty \<noteq> ''sha1'' \<Longrightarrow> ty \<noteq> ''sha256'' \<Longrightarrow> checksumTypeMap_index ty = Unknown"
  by (simp add: checksumTypeMap_index_def checksumTypeMap_def)

lemma ContentStore_classify_unknown:
  assumes cs: "storage r = ContentStore hash"
    and unk: "checksumTypeMap_index (checksum_Type (Checksum pack)) = Unknown"
  shows "classify r st pack =
           (if architecture_accepted (archs r) (Arch pack) then
              (case committed st (Href (Location pack)) of None \<Rightarrow> download | Some content \<Rightarrow> skip)
            else excluded)"
  using unk
  by (simp add: classify_def store_query_def cs ContentStore_def cs_checksum_def split: option.splits)

text \<open>
  C3 (amended). The names sha and sha1 map to SHA1 and sha256 to SHA256; any other name
  maps to Unknown. With the Content Store of the spec as storage, a record of the decoded
  manifest with such a name is never in toRecycle: it is in toDownload exactly when it
  passes the architecture filter and the committed generation has no file at its
  location, and is skipped when there is a file.
\<close>

theorem unknown_checksum_type:
  "checksumTypeMap_index ''sha'' = SHA1 \<and> checksumTypeMap_index ''sha1'' = SHA1 \<and>
   checksumTypeMap_index ''sha256'' = SHA256 \<and>
   (checksum_Type (Checksum pack) \<noteq> ''sha'' \<and> checksum_Type (Checksum pack) \<noteq> ''sha1'' \<and>
    checksum_Type (Checksum pack) \<noteq> ''sha256'' \<longrightarrow>
      checksumTypeMap_index (checksum_Type (Checksum pack)) = Unknown \<and>
      (storage r = ContentStore hash \<and>
       httpGet en (Url r @ ''/'' @ path) = Inr body \<and>
       gzip_NewReader en body = Inr gz \<and> xml_Decode_primary en gz = Inr primary \<and>
       pack \<in> set (Packages primary) \<and>
       processPrimary en r path w = (toDownload, toRecycle, err, w') \<longrightarrow>
         pack \<notin> set toRecycle \<and>
         (pack \<in> set toDownload \<longleftrightarrow>
            (Mapping.is_empty (archs r) \<or> Arch pack = ''noarch'' \<or>
             Mapping.lookup (archs r) (Arch pack) = Some True) \<and>
            committed (store w) (Href (Location pack)) = None)))"
proof (intro conjI impI)
  show "checksumTypeMap_index ''sha'' = SHA1" "checksumTypeMap_index ''sha1'' = SHA1"
    "checksumTypeMap_index ''sha256'' = SHA256"
    by (simp_all add: checksumTypeMap_index_def checksumTypeMap_def)
next
  assume other: "checksum_Type (Checksum pack) \<noteq> ''sha'' \<and> checksum_Type (Checksum pack) \<noteq> ''sha1'' \<and>
    checksum_Type (Checksum pack) \<noteq> ''sha256''"
  then show unk: "checksumTypeMap_index (checksum_Type (Checksum pack)) = Unknown"
    by (simp add: checksumTypeMap_index_other)
  assume run: "storage r = ContentStore hash \<and>
       httpGet en (Url r @ ''/'' @ path) = Inr body \<and>
       gzip_NewReader en body = Inr gz \<and> xml_Decode_primary en gz = Inr primary \<and>
       pack \<in> set (Packages primary) \<and>
       processPrimary en r path w = (toDownload, toRecycle, err, w')"
  then have cs: "storage r = ContentStore hash" by simp
  let ?st1 = "(store w)\<lparr>in_progress := (in_progress (store w))(path \<mapsto> body)\<rparr>"
  have stored: "StoringMapper (storage r) path [] body (store w) = (None, ?st1)"
    by (simp add: cs ContentStore_def cs_streamingWriter_def)
  from run processPrimary_decoded [of en r path body w ?st1 gz primary] stored
  have dl: "toDownload = filter (\<lambda>p. classify r ?st1 p = download) (Packages primary)"
    and rc: "toRecycle = filter (\<lambda>p. classify r ?st1 p = recycle) (Packages primary)"
    by auto
  note cl = ContentStore_classify_unknown [OF cs unk, of ?st1]
  from run show "pack \<notin> set toRecycle"
    unfolding rc by (simp add: cl split: option.splits)
  from run show "pack \<in> set toDownload \<longleftrightarrow>
            (Mapping.is_empty (archs r) \<or> Arch pack = ''noarch'' \<or>
             Mapping.lookup (archs r) (Arch pack) = Some True) \<and>
            committed (store w) (Href (Location pack)) = None"
    unfolding dl by (auto simp: cl architecture_accepted_def split: option.splits)
qed

lemma ex_processPrimary_lists:
  "fst (processPrimary ex_env ex_syncer ''p'' ex_world) =
     [ex_pack ''x86_64'' ''a'' ''sha256'' ''2A'', ex_pack ''x86_64'' ''c'' ''sha256'' ''2C''] \<and>
   fst (snd (processPrimary ex_env ex_syncer ''p'' ex_world)) = [ex_pack ''noarch'' ''b'' ''sha'' ''1B'']"
proof -
  from processPrimary_decoded [OF ex_get_primary ex_stored ex_gzip ex_decode]
  show ?thesis
    by (auto simp add: ex_packages_def classify_def architecture_accepted_def store_query_def
          ex_pack_def ex_syncer_def ContentStore_def cs_checksum_def
          ex_store_def checksumTypeMap_index_def checksumTypeMap_def ex_hash_def)
qed

text \<open>
  C3, as stated, fails: the record d has the checksum type md5 and a local file at
  its location; the Content Store of the spec fails the query for the unsupported
  algorithm, and the record is skipped, not downloaded.
\<close>

theorem unknown_checksum_type_counterexample:
  "ex_pack ''x86_64'' ''d'' ''md5'' ''5D'' \<in> set ex_packages \<and>
   checksum_Type (Checksum (ex_pack ''x86_64'' ''d'' ''md5'' ''5D'')) \<notin> {''sha'', ''sha1'', ''sha256''} \<and>
   Mapping.lookup (archs ex_syncer) (Arch (ex_pack ''x86_64'' ''d'' ''md5'' ''5D'')) = Some True \<and>
   committed (store ex_world) ''d'' = Some ''D'' \<and>
   ex_pack ''x86_64'' ''d'' ''md5'' ''5D'' \<notin> set (fst (processPrimary ex_env ex_syncer ''p'' ex_world)) \<and>
   ex_pack ''x86_64'' ''d'' ''md5'' ''5D'' \<notin> set (fst (snd (processPrimary ex_env ex_syncer ''p'' ex_world)))"
  using ex_processPrimary_lists
  by (simp add: ex_packages_def ex_pack_def ex_syncer_def ex_world_def ex_store_def)

theorem unknown_checksum_type_witness:
  "checksumTypeMap_index ''md5'' = Unknown \<and>
   ex_pack ''x86_64'' ''d'' ''md5'' ''5D'' \<notin> set (fst (snd (processPrimary ex_env ex_syncer ''p'' ex_world))) \<and>
   ex_pack ''x86_64'' ''d'' ''md5'' ''5D'' \<notin> set (fst (processPrimary ex_env ex_syncer ''p'' ex_world)) \<and>
   ex_pack ''x86_64'' ''d'' ''md5'' ''5D'' \<in>
     set (fst (processPrimary ex_env ex_syncer ''p'' (ex_world\<lparr>store := ex_store\<lparr>committed := Map.empty\<rparr>\<rparr>)))"
proof -
  obtain dl rc err w' where run: "processPrimary ex_env ex_syncer ''p'' ex_world = (dl, rc, err, w')"
    by (metis prod_cases4)
  obtain dl2 rc2 err2 w2 where run2:
    "processPrimary ex_env ex_syncer ''p'' (ex_world\<lparr>store := ex_store\<lparr>committed := Map.empty\<rparr>\<rparr>) =
       (dl2, rc2, err2, w2)"
    by (metis prod_cases4)
  have cs: "storage ex_syncer = ContentStore ex_hash"
    by (simp add: ex_syncer_def)
  from unknown_checksum_type [of "ex_pack ''x86_64'' ''d'' ''md5'' ''5D''" ex_syncer ex_hash ex_env "''p''" "''P''"
        "''M''" "\<lparr>Packages = ex_packages\<rparr>" ex_world dl rc err w']
      unknown_checksum_type [of "ex_pack ''x86_64'' ''d'' ''md5'' ''5D''" ex_syncer ex_hash ex_env "''p''" "''P''"
        "''M''" "\<lparr>Packages = ex_packages\<rparr>" "ex_world\<lparr>store := ex_store\<lparr>committed := Map.empty\<rparr>\<rparr>" dl2 rc2 err2 w2]
      ex_get_primary ex_gzip ex_decode cs run run2
  show ?thesis
    unfolding run run2
    by (simp add: ex_packages_def ex_pack_def ex_syncer_def ex_world_def ex_store_def)
qed


subsection \<open>The signature files\<close>

lemma downloadStore_unfold:
  "downloadStore en r p w =
     (case httpGet en (Url r @ ''/'' @ p) of
        Inl e \<Rightarrow> (Some e, emit (Get (Url r @ ''/'' @ p)) (log_Printf (Downloading p) w))
      | Inr body \<Rightarrow>
          (case StoringMapper (storage r) p [] body (store w) of
             (err, st') \<Rightarrow>
               (err, emit (Store p [])
                  (emit (Get (Url r @ ''/'' @ p)) (log_Printf (Downloading p) w)\<lparr>store := st'\<rparr>))))"
  by (simp add: downloadStore_def downloadStoreApply_def DownloadApply_def Compose_def
        storage_StoringMapper_def Nop_def split: sum.splits prod.splits option.splits)

lemma downloadStore_trace:
  "downloadStore en r p w = (err, w') \<Longrightarrow>
     \<exists>evs. trace w' = trace w @ Log (Downloading p) # Get (Url r @ ''/'' @ p) # evs"
  by (auto simp: downloadStore_unfold split: sum.splits prod.splits)

lemma downloadStore_fails:
  "httpGet en (Url r @ ''/'' @ p) = Inl e \<Longrightarrow>
     downloadStore en r p w = (Some e, emit (Get (Url r @ ''/'' @ p)) (log_Printf (Downloading p) w))"
  by (simp add: downloadStore_unfold)

lemma decimal_404: "decimal 404 = ''404''"
  by code_simp

lemma HttpError_404_text: "HasSuffix (Error (HttpError 404)) ''404''"
  by (simp add: HasSuffix_def decimal_404 suffix_def)

lemma HttpError_500_text: "\<not> HasSuffix (Error (HttpError 500)) ''404''"
  by code_simp

lemma ex_text_ends_404: "HasSuffix (Error (Failure ''timeout on port 10404'')) ''404''"
  by code_simp

lemma ex_text_starts_404: "\<not> HasSuffix (Error (Failure ''404 Not Found'')) ''404''"
  by code_simp

lemma processMetadata_stages:
  assumes idx: "downloadStoreApply en r repomdPath [] (processMetadata_consumer en r) ([], []) w =
                  (None, (dl, rc), w1)"
    and asc: "downloadStore en r (repomdPath @ ''.asc'') w1 = (a, w2)"
    and key: "downloadStore en r (repomdPath @ ''.key'')
                (case a of None \<Rightarrow> w2 | Some e \<Rightarrow> log_Printf Got_404_ignoring w2) = (k, w3)"
  shows "processMetadata en r w =
           (if \<exists>e. a = Some e \<and> \<not> HasSuffix (Error e) ''404'' then (dl, rc, a, w2)
            else if k = None then (dl, rc, None, w3)
            else if HasSuffix (Error (the k)) ''404'' then (dl, rc, None, log_Printf Got_404_ignoring w3)
            else (dl, rc, k, w3))"
  using idx asc key
  by (auto simp: processMetadata_def split: option.splits)

lemma processMetadata_index_fails:
  assumes "httpGet en (Url r @ ''/'' @ repomdPath) = Inl e"
  shows "processMetadata en r w =
           ([], [], Some e, emit (Get (Url r @ ''/'' @ repomdPath)) (log_Printf (Downloading repomdPath) w))"
    and "StoreRepo en r w =
           (Some e, emit (Get (Url r @ ''/'' @ repomdPath)) (log_Printf (Downloading repomdPath) w))"
  using assms
  by (simp_all add: StoreRepo_def processMetadata_def downloadStoreApply_def DownloadApply_def)

lemma ex_bare_index:
  "downloadStoreApply (ex_env_bare asc key) ex_syncer repomdPath []
     (processMetadata_consumer (ex_env_bare asc key) ex_syncer) ([], []) ex_world =
   (None, ([], []),
    \<lparr>store = ex_store\<lparr>in_progress := [''repodata/repomd.xml'' \<mapsto> ''I'']\<rparr>,
     trace = [Log (Downloading ''repodata/repomd.xml''), Get ''u/repodata/repomd.xml'',
              Store ''repodata/repomd.xml'' []]\<rparr>)"
  by (simp add: downloadStoreApply_def DownloadApply_def Compose_def storage_StoringMapper_def
        processMetadata_consumer_def ex_env_bare_def ex_remote_bare_def ex_syncer_def repomdPath_def
        ContentStore_def cs_streamingWriter_def ex_world_def ex_store_def emit_def log_Printf_def)

lemma ex_bare_asc: "httpGet (ex_env_bare asc key) (Url ex_syncer @ ''/'' @ repomdPath @ ''.asc'') = asc"
  by (simp add: ex_env_bare_def ex_remote_bare_def ex_syncer_def repomdPath_def)

lemma ex_bare_key: "httpGet (ex_env_bare asc key) (Url ex_syncer @ ''/'' @ repomdPath @ ''.key'') = key"
  by (simp add: ex_env_bare_def ex_remote_bare_def ex_syncer_def repomdPath_def)

lemma ex_bare_signatures:
  assumes "asc = Inl e"
  shows "fst (snd (snd (processMetadata (ex_env_bare asc (Inr ''K'')) ex_syncer ex_world))) =
           (if HasSuffix (Error e) ''404'' then None else Some e)"
proof -
  let ?en = "ex_env_bare asc (Inr ''K'')"
  obtain w1 where idx: "downloadStoreApply ?en ex_syncer repomdPath []
     (processMetadata_consumer ?en ex_syncer) ([], []) ex_world = (None, ([], []), w1)"
    using ex_bare_index by blast
  obtain w2 where asc: "downloadStore ?en ex_syncer (repomdPath @ ''.asc'') w1 = (Some e, w2)"
    using downloadStore_fails [of ?en ex_syncer "repomdPath @ ''.asc''" e w1] assms ex_bare_asc
    by simp
  obtain w3 where key: "downloadStore ?en ex_syncer (repomdPath @ ''.key'')
      (case Some e of None \<Rightarrow> w2 | Some e \<Rightarrow> log_Printf Got_404_ignoring w2) = (None, w3)"
    using ex_bare_key [of asc "Inr ''K''"]
    by (simp add: downloadStore_unfold ex_syncer_def ContentStore_def cs_streamingWriter_def)
  show ?thesis
    by (simp add: processMetadata_stages [OF idx asc key])
qed

text \<open>
  C10. After the index stage, the failure of the request for the signature (\<open>a\<close>) makes
  processMetadata return that failure, in the state the request left, exactly when its
  text does not end with 404; otherwise the key is requested next. The failure of the
  request for the key (\<open>k\<close>) is returned exactly when its text does not end with 404, and
  is logged and dropped otherwise. Nothing but the text of the error decides.
\<close>

theorem signature_tolerance_by_text:
  assumes idx: "downloadStoreApply en r repomdPath [] (processMetadata_consumer en r) ([], []) w =
                  (None, (dl, rc), w1)"
    and asc: "downloadStore en r (repomdPath @ ''.asc'') w1 = (a, w2)"
    and key: "downloadStore en r (repomdPath @ ''.key'')
                (case a of None \<Rightarrow> w2 | Some e \<Rightarrow> log_Printf Got_404_ignoring w2) = (k, w3)"
  shows "(\<forall>e. a = Some e \<longrightarrow>
            (processMetadata en r w = (dl, rc, Some e, w2) \<longleftrightarrow> \<not> HasSuffix (Error e) ''404'') \<and>
            (fst (snd (snd (processMetadata en r w))) = Some e \<longleftrightarrow> \<not> HasSuffix (Error e) ''404'')) \<and>
         ((a = None \<or> (\<exists>e. a = Some e \<and> HasSuffix (Error e) ''404'')) \<longrightarrow>
            (\<forall>e'. k = Some e' \<longrightarrow>
               processMetadata en r w =
                 (if HasSuffix (Error e') ''404'' then (dl, rc, None, log_Printf Got_404_ignoring w3)
                  else (dl, rc, Some e', w3))) \<and>
            (k = None \<longrightarrow> processMetadata en r w = (dl, rc, None, w3)))"
proof (intro conjI allI impI)
  fix e assume a: "a = Some e"
  from key a downloadStore_trace [of en r "repomdPath @ ''.key''" "log_Printf Got_404_ignoring w2" k w3]
  obtain evs where tr: "trace w3 = trace w2 @ Log Got_404_ignoring # evs"
    by auto
  then have "trace w3 \<noteq> trace w2" "trace (log_Printf Got_404_ignoring w3) \<noteq> trace w2"
    by simp_all
  then have ne: "w3 \<noteq> w2" "log_Printf Got_404_ignoring w3 \<noteq> w2"
    by blast+
  show "processMetadata en r w = (dl, rc, Some e, w2) \<longleftrightarrow> \<not> HasSuffix (Error e) ''404''"
    using a ne by (auto simp: processMetadata_stages [OF idx asc key])
  show "fst (snd (snd (processMetadata en r w))) = Some e \<longleftrightarrow> \<not> HasSuffix (Error e) ''404''"
    using a by (auto simp: processMetadata_stages [OF idx asc key])
next
  fix e' assume "a = None \<or> (\<exists>e. a = Some e \<and> HasSuffix (Error e) ''404'')" and "k = Some e'"
  then show "processMetadata en r w =
                 (if HasSuffix (Error e') ''404'' then (dl, rc, None, log_Printf Got_404_ignoring w3)
                  else (dl, rc, Some e', w3))"
    by (auto simp: processMetadata_stages [OF idx asc key])
next
  assume "a = None \<or> (\<exists>e. a = Some e \<and> HasSuffix (Error e) ''404'')" and "k = None"
  then show "processMetadata en r w = (dl, rc, None, w3)"
    by (auto simp: processMetadata_stages [OF idx asc key])
qed

theorem signature_tolerance_by_text_witness:
  "fst (snd (snd (processMetadata (ex_env_bare (Inl (Failure ''timeout on port 10404'')) (Inr ''K''))
      ex_syncer ex_world))) \<noteq> Some (Failure ''timeout on port 10404'') \<and>
   fst (snd (snd (processMetadata (ex_env_bare (Inl (Failure ''404 Not Found'')) (Inr ''K''))
      ex_syncer ex_world))) = Some (Failure ''404 Not Found'')"
proof -
  have *: "fst (snd (snd (processMetadata (ex_env_bare (Inl e) (Inr ''K'')) ex_syncer ex_world))) = Some e
      \<longleftrightarrow> \<not> HasSuffix (Error e) ''404''" for e
  proof -
    let ?en = "ex_env_bare (Inl e) (Inr ''K'')"
    obtain w2 where asc: "downloadStore ?en ex_syncer (repomdPath @ ''.asc'')
        \<lparr>store = ex_store\<lparr>in_progress := [''repodata/repomd.xml'' \<mapsto> ''I'']\<rparr>,
         trace = [Log (Downloading ''repodata/repomd.xml''), Get ''u/repodata/repomd.xml'',
              Store ''repodata/repomd.xml'' []]\<rparr> = (Some e, w2)"
      using downloadStore_fails [of ?en ex_syncer "repomdPath @ ''.asc''" e] ex_bare_asc
      by simp
    obtain k w3 where key: "downloadStore ?en ex_syncer (repomdPath @ ''.key'')
        (case Some e of None \<Rightarrow> w2 | Some e \<Rightarrow> log_Printf Got_404_ignoring w2) = (k, w3)"
      by (metis surj_pair)
    from signature_tolerance_by_text [OF ex_bare_index asc key] show ?thesis
      by simp
  qed
  show ?thesis
    using * [of "Failure ''timeout on port 10404''"] * [of "Failure ''404 Not Found''"]
      ex_text_ends_404 ex_text_starts_404
    by simp
qed

text \<open>
  C5 (amended). A failure of the request for the index itself, a 404 included, makes
  processMetadata and StoreRepo return it at once. A 404 response is returned by the
  download as an error whose text ends with 404. After the index stage the signature is
  requested; a failure whose text does not end with 404 is returned; otherwise the key is
  requested, in the same way: a failure whose text ends with 404 is logged and dropped, any
  other is returned.
\<close>

theorem signature_fetches:
  "(httpGet en (Url r @ ''/'' @ repomdPath) = Inl e0 \<longrightarrow>
      processMetadata en r w =
        ([], [], Some e0, emit (Get (Url r @ ''/'' @ repomdPath)) (log_Printf (Downloading repomdPath) w)) \<and>
      StoreRepo en r w =
        (Some e0, emit (Get (Url r @ ''/'' @ repomdPath)) (log_Printf (Downloading repomdPath) w))) \<and>
   (httpGet en (Url r @ ''/'' @ p) = Inl (HttpError 404) \<longrightarrow>
      fst (downloadStore en r p w0) = Some (HttpError 404) \<and> HasSuffix (Error (HttpError 404)) ''404'') \<and>
   (downloadStoreApply en r repomdPath [] (processMetadata_consumer en r) ([], []) w = (None, (dl, rc), w1) \<and>
    downloadStore en r (repomdPath @ ''.asc'') w1 = (a, w2) \<and>
    downloadStore en r (repomdPath @ ''.key'')
      (case a of None \<Rightarrow> w2 | Some e \<Rightarrow> log_Printf Got_404_ignoring w2) = (k, w3) \<longrightarrow>
      (\<exists>evs. trace w2 = trace w1 @ Log (Downloading (repomdPath @ ''.asc'')) #
                 Get (Url r @ ''/'' @ repomdPath @ ''.asc'') # evs) \<and>
      (\<forall>e. a = Some e \<and> \<not> HasSuffix (Error e) ''404'' \<longrightarrow>
           processMetadata en r w = (dl, rc, Some e, w2)) \<and>
      (a = None \<or> (\<exists>e. a = Some e \<and> HasSuffix (Error e) ''404'') \<longrightarrow>
         (\<exists>evs. trace w3 = trace w2 @ (case a of None \<Rightarrow> [] | Some e \<Rightarrow> [Log Got_404_ignoring]) @
                    Log (Downloading (repomdPath @ ''.key'')) #
                    Get (Url r @ ''/'' @ repomdPath @ ''.key'') # evs) \<and>
         (k = None \<longrightarrow> processMetadata en r w = (dl, rc, None, w3)) \<and>
         (\<forall>e'. k = Some e' \<and> HasSuffix (Error e') ''404'' \<longrightarrow>
            processMetadata en r w = (dl, rc, None, log_Printf Got_404_ignoring w3)) \<and>
         (\<forall>e'. k = Some e' \<and> \<not> HasSuffix (Error e') ''404'' \<longrightarrow>
            processMetadata en r w = (dl, rc, Some e', w3))))"
proof (intro conjI impI allI)
  assume "httpGet en (Url r @ ''/'' @ repomdPath) = Inl e0"
  from processMetadata_index_fails [OF this]
  show "processMetadata en r w =
        ([], [], Some e0, emit (Get (Url r @ ''/'' @ repomdPath)) (log_Printf (Downloading repomdPath) w))"
    and "StoreRepo en r w =
        (Some e0, emit (Get (Url r @ ''/'' @ repomdPath)) (log_Printf (Downloading repomdPath) w))"
    by simp_all
next
  assume "httpGet en (Url r @ ''/'' @ p) = Inl (HttpError 404)"
  then show "fst (downloadStore en r p w0) = Some (HttpError 404)"
    by (simp add: downloadStore_fails)
next
  show "HasSuffix (Error (HttpError 404)) ''404''" by (rule HttpError_404_text)
next
  assume run: "downloadStoreApply en r repomdPath [] (processMetadata_consumer en r) ([], []) w = (None, (dl, rc), w1) \<and>
    downloadStore en r (repomdPath @ ''.asc'') w1 = (a, w2) \<and>
    downloadStore en r (repomdPath @ ''.key'')
      (case a of None \<Rightarrow> w2 | Some e \<Rightarrow> log_Printf Got_404_ignoring w2) = (k, w3)"
  then have idx: "downloadStoreApply en r repomdPath [] (processMetadata_consumer en r) ([], []) w = (None, (dl, rc), w1)"
    and asc: "downloadStore en r (repomdPath @ ''.asc'') w1 = (a, w2)"
    and key: "downloadStore en r (repomdPath @ ''.key'')
      (case a of None \<Rightarrow> w2 | Some e \<Rightarrow> log_Printf Got_404_ignoring w2) = (k, w3)"
    by simp_all
  note stages = processMetadata_stages [OF idx asc key]
  from downloadStore_trace [OF asc]
  show "\<exists>evs. trace w2 = trace w1 @ Log (Downloading (repomdPath @ ''.asc'')) #
                 Get (Url r @ ''/'' @ repomdPath @ ''.asc'') # evs" .
  {
    fix e assume "a = Some e \<and> \<not> HasSuffix (Error e) ''404''"
    then show "processMetadata en r w = (dl, rc, Some e, w2)"
      by (auto simp: stages)
  }
  {
    assume pass: "a = None \<or> (\<exists>e. a = Some e \<and> HasSuffix (Error e) ''404'')"
    from downloadStore_trace [OF key]
    show "\<exists>evs. trace w3 = trace w2 @ (case a of None \<Rightarrow> [] | Some e \<Rightarrow> [Log Got_404_ignoring]) @
                    Log (Downloading (repomdPath @ ''.key'')) #
                    Get (Url r @ ''/'' @ repomdPath @ ''.key'') # evs"
      by (cases a) auto
    {
      assume "k = None"
      with pass show "processMetadata en r w = (dl, rc, None, w3)"
        by (auto simp: stages)
    }
    {
      fix e' assume "k = Some e' \<and> HasSuffix (Error e') ''404''"
      with pass show "processMetadata en r w = (dl, rc, None, log_Printf Got_404_ignoring w3)"
        by (auto simp: stages)
    }
    {
      fix e' assume "k = Some e' \<and> \<not> HasSuffix (Error e') ''404''"
      with pass show "processMetadata en r w = (dl, rc, Some e', w3)"
        by (auto simp: stages)
    }
  }
qed

text \<open>
  C5, as stated, fails: the request for the signature fails with an error that is not
  a 404 response and whose text ends with 404; the sync goes on.
\<close>

theorem signature_fetches_counterexample:
  "httpGet (ex_env_bare (Inl (Failure ''timeout on port 10404'')) (Inr ''K''))
     (Url ex_syncer @ ''/repodata/repomd.xml.asc'') = Inl (Failure ''timeout on port 10404'') \<and>
   Failure ''timeout on port 10404'' \<noteq> HttpError 404 \<and>
   fst (snd (snd (processMetadata (ex_env_bare (Inl (Failure ''timeout on port 10404'')) (Inr ''K''))
      ex_syncer ex_world))) = None"
  using ex_bare_signatures [of "Inl (Failure ''timeout on port 10404'')" "Failure ''timeout on port 10404''"]
    ex_text_ends_404 ex_bare_asc [of "Inl (Failure ''timeout on port 10404'')" "Inr ''K''"]
  by (simp add: repomdPath_def)

theorem signature_fetches_witness:
  "fst (StoreRepo (ex_env_bare (Inl (HttpError 404)) (Inl (HttpError 404))) (ex_syncer\<lparr>Url := ''v''\<rparr>) ex_world) =
     Some (HttpError 404) \<and>
   fst (snd (snd (processMetadata (ex_env_bare (Inl (HttpError 404)) (Inl (HttpError 404))) ex_syncer ex_world))) =
     None \<and>
   fst (snd (snd (processMetadata (ex_env_bare (Inl (HttpError 500)) (Inr ''K'')) ex_syncer ex_world))) =
     Some (HttpError 500)"
proof -
  let ?e4 = "ex_env_bare (Inl (HttpError 404)) (Inl (HttpError 404))"
  let ?e5 = "ex_env_bare (Inl (HttpError 500)) (Inr ''K'')"
  have "httpGet ?e4 (Url (ex_syncer\<lparr>Url := ''v''\<rparr>) @ ''/'' @ repomdPath) = Inl (HttpError 404)"
    by (simp add: ex_env_bare_def ex_remote_bare_def repomdPath_def)
  with signature_fetches [where en = ?e4 and r = "ex_syncer\<lparr>Url := ''v''\<rparr>" and w = ex_world
      and ?e0.0 = "HttpError 404"]
  have first: "fst (StoreRepo ?e4 (ex_syncer\<lparr>Url := ''v''\<rparr>) ex_world) = Some (HttpError 404)"
    by simp
  obtain w1 where idx4: "downloadStoreApply ?e4 ex_syncer repomdPath []
     (processMetadata_consumer ?e4 ex_syncer) ([], []) ex_world = (None, ([], []), w1)"
    using ex_bare_index by blast
  obtain w2 where asc4: "downloadStore ?e4 ex_syncer (repomdPath @ ''.asc'') w1 = (Some (HttpError 404), w2)"
    using downloadStore_fails [of ?e4 ex_syncer "repomdPath @ ''.asc''" "HttpError 404" w1] ex_bare_asc
    by simp
  obtain w3 where key4: "downloadStore ?e4 ex_syncer (repomdPath @ ''.key'')
      (case Some (HttpError 404) of None \<Rightarrow> w2 | Some e \<Rightarrow> log_Printf Got_404_ignoring w2) =
        (Some (HttpError 404), w3)"
    using downloadStore_fails [of ?e4 ex_syncer "repomdPath @ ''.key''" "HttpError 404"] ex_bare_key
    by simp
  from signature_fetches [where en = ?e4 and r = ex_syncer and w = ex_world and dl = "[]" and rc = "[]"
      and ?w1.0 = w1 and a = "Some (HttpError 404)" and ?w2.0 = w2 and k = "Some (HttpError 404)" and ?w3.0 = w3]
    idx4 asc4 key4 HttpError_404_text
  have second: "fst (snd (snd (processMetadata ?e4 ex_syncer ex_world))) = None"
    by simp
  obtain v1 where idx5: "downloadStoreApply ?e5 ex_syncer repomdPath []
     (processMetadata_consumer ?e5 ex_syncer) ([], []) ex_world = (None, ([], []), v1)"
    using ex_bare_index by blast
  obtain v2 where asc5: "downloadStore ?e5 ex_syncer (repomdPath @ ''.asc'') v1 = (Some (HttpError 500), v2)"
    using downloadStore_fails [of ?e5 ex_syncer "repomdPath @ ''.asc''" "HttpError 500" v1] ex_bare_asc
    by simp
  obtain k v3 where key5: "downloadStore ?e5 ex_syncer (repomdPath @ ''.key'')
      (case Some (HttpError 500) of None \<Rightarrow> v2 | Some e \<Rightarrow> log_Printf Got_404_ignoring v2) = (k, v3)"
    by (metis surj_pair)
  from signature_fetches [where en = ?e5 and r = ex_syncer and w = ex_world and dl = "[]" and rc = "[]"
      and ?w1.0 = v1 and a = "Some (HttpError 500)" and ?w2.0 = v2 and k = k and ?w3.0 = v3]
    idx5 asc5 key5 HttpError_500_text
  have third: "fst (snd (snd (processMetadata ?e5 ex_syncer ex_world))) = Some (HttpError 500)"
    by simp
  from first second third show ?thesis by simp
qed

subsection \<open>The stages of StoreRepo\<close>

lemma no_update_refl [simp]: "no_update w w"
  by (simp add: no_update_def)

lemma no_update_trans: "no_update w w' \<Longrightarrow> no_update w' w'' \<Longrightarrow> no_update w w''"
  by (auto simp: no_update_def)

lemma no_update_emit: "\<not> is_update e \<Longrightarrow> no_update w (emit e w)"
  by (simp add: no_update_def)

lemma no_update_log [simp]: "no_update w (log_Printf l w)"
  by (simp add: no_update_def)

lemma no_update_after_log: "no_update (log_Printf l w) w' \<Longrightarrow> no_update w w'"
  by (rule no_update_trans [OF no_update_log])

lemma no_update_store_irrelevant [simp]: "no_update w (w'\<lparr>store := st\<rparr>) = no_update w w'"
  by (simp add: no_update_def)

lemma no_update_emit_right: "\<not> is_update e \<Longrightarrow> no_update w w' \<Longrightarrow> no_update w (emit e w')"
  by (auto simp: no_update_def)

lemma no_update_log_right [simp]: "no_update w w' \<Longrightarrow> no_update w (log_Printf l w')"
  by (simp add: log_Printf_def no_update_emit_right)

lemma downloadStoreApply_no_update:
  assumes f: "\<And>body c w err c' w'. f body c w = (err, c', w') \<Longrightarrow> no_update w w'"
    and run: "downloadStoreApply en r path checksum f c w = (err, c', w')"
  shows "no_update w w'"
proof (cases "httpGet en (Url r @ ''/'' @ path)")
  case (Inl e)
  with run show ?thesis
    by (auto simp: downloadStoreApply_def DownloadApply_def no_update_emit_right)
next
  case (Inr body)
  obtain serr st' where sm: "StoringMapper (storage r) path checksum body (store w) = (serr, st')"
    by (metis surj_pair)
  let ?w1 = "emit (Store path checksum) (emit (Get (Url r @ ''/'' @ path)) (log_Printf (Downloading path) w)\<lparr>store := st'\<rparr>)"
  have q: "no_update w ?w1"
    by (simp add: no_update_emit_right)
  show ?thesis
  proof (cases serr)
    case None
    with run Inr sm have "f body c ?w1 = (err, c', w')"
      by (simp add: downloadStoreApply_def DownloadApply_def Compose_def storage_StoringMapper_def)
    from no_update_trans [OF q f [OF this]] show ?thesis .
  next
    case (Some e)
    with run Inr sm have "w' = ?w1"
      by (simp add: downloadStoreApply_def DownloadApply_def Compose_def storage_StoringMapper_def)
    with q show ?thesis by simp
  qed
qed

lemma downloadStore_no_update: "downloadStore en r path w = (err, w') \<Longrightarrow> no_update w w'"
proof -
  assume run: "downloadStore en r path w = (err, w')"
  then obtain c' where "downloadStoreApply en r path [] Nop () w = (err, c', w')"
    by (auto simp: downloadStore_def split: prod.splits)
  then show ?thesis
    by (rule downloadStoreApply_no_update [rotated]) (simp add: Nop_def)
qed

lemma processPrimary_pack_no_update:
  "processPrimary_pack r a pack (dl, rc, w) = (dl', rc', w') \<Longrightarrow> no_update w w'"
  by (auto simp: processPrimary_pack_def Let_def no_update_emit_right split: sum.splits if_splits)

lemma processPrimary_loop_no_update:
  "processPrimary_loop r a packs (dl, rc, w) = (dl', rc', w') \<Longrightarrow> no_update w w'"
proof (induction packs arbitrary: dl rc w)
  case Nil
  then show ?case by simp
next
  case (Cons pack rest)
  obtain dl1 rc1 w1 where step: "processPrimary_pack r a pack (dl, rc, w) = (dl1, rc1, w1)"
    by (metis prod_cases3)
  with Cons.prems have "processPrimary_loop r a rest (dl1, rc1, w1) = (dl', rc', w')" by simp
  from no_update_trans [OF processPrimary_pack_no_update [OF step] Cons.IH [OF this]]
  show ?case .
qed

lemma processPrimary_consumer_no_update:
  "processPrimary_consumer en r body c w = (err, c', w') \<Longrightarrow> no_update w w'"
  by (auto simp: processPrimary_consumer_def Let_def split: sum.splits prod.splits
        dest: processPrimary_loop_no_update)

lemma processPrimary_no_update:
  assumes "processPrimary en r path w = (dl, rc, err, w')"
  shows "no_update w w'"
proof -
  from assms have "downloadStoreApply en r path [] (processPrimary_consumer en r) ([], []) w = (err, (dl, rc), w')"
    by (auto simp: processPrimary_def split: prod.splits)
  then show ?thesis
    by (rule downloadStoreApply_no_update [rotated]) (rule processPrimary_consumer_no_update)
qed

lemma processMetadata_loop_no_update:
  "processMetadata_loop en r ds c w = (err, c', w') \<Longrightarrow> no_update w w'"
proof (induction ds arbitrary: c w)
  case Nil
  then show ?case by simp
next
  case (Cons d ds)
  show ?case
  proof (cases "data_Type d = ''primary''")
    case True
    obtain dl rc e w1 where pp: "processPrimary en r (Href (data_Location d)) w = (dl, rc, e, w1)"
      by (metis prod_cases4)
    note q = processPrimary_no_update [OF pp]
    show ?thesis
    proof (cases e)
      case None
      with Cons.prems True pp have "processMetadata_loop en r ds (dl, rc) w1 = (err, c', w')"
        by simp
      from no_update_trans [OF q Cons.IH [OF this]] show ?thesis .
    next
      case (Some x)
      with Cons.prems True pp q show ?thesis by simp
    qed
  next
    case False
    obtain e w1 where ds: "downloadStore en r (Href (data_Location d)) w = (e, w1)"
      by (metis surj_pair)
    note q = downloadStore_no_update [OF ds]
    show ?thesis
    proof (cases e)
      case None
      with Cons.prems False ds have "processMetadata_loop en r ds c w1 = (err, c', w')"
        by simp
      from no_update_trans [OF q Cons.IH [OF this]] show ?thesis .
    next
      case (Some x)
      with Cons.prems False ds q show ?thesis by simp
    qed
  qed
qed

lemma processMetadata_consumer_no_update:
  "processMetadata_consumer en r body c w = (err, c', w') \<Longrightarrow> no_update w w'"
  by (auto simp: processMetadata_consumer_def split: sum.splits dest: processMetadata_loop_no_update)

lemma processMetadata_no_update:
  assumes "processMetadata en r w = (dl, rc, err, w')"
  shows "no_update w w'"
proof -
  obtain e0 dl0 rc0 w1 where idx:
    "downloadStoreApply en r repomdPath [] (processMetadata_consumer en r) ([], []) w = (e0, (dl0, rc0), w1)"
    by (cases "downloadStoreApply en r repomdPath [] (processMetadata_consumer en r) ([], []) w") auto
  have q1: "no_update w w1"
    using idx by (rule downloadStoreApply_no_update [rotated]) (rule processMetadata_consumer_no_update)
  obtain a w2 where asc: "downloadStore en r (repomdPath @ ''.asc'') w1 = (a, w2)"
    by (metis surj_pair)
  have q2: "no_update w w2"
    using q1 downloadStore_no_update [OF asc] by (rule no_update_trans)
  obtain k w3 where key: "downloadStore en r (repomdPath @ ''.key'')
      (case a of None \<Rightarrow> w2 | Some e \<Rightarrow> log_Printf Got_404_ignoring w2) = (k, w3)"
    by (metis surj_pair)
  have "no_update w (case a of None \<Rightarrow> w2 | Some e \<Rightarrow> log_Printf Got_404_ignoring w2)"
    using q2 by (cases a) simp_all
  then have q3: "no_update w w3"
    using downloadStore_no_update [OF key] by (rule no_update_trans)
  show ?thesis
  proof (cases e0)
    case (Some e)
    with idx assms q1 show ?thesis by (simp add: processMetadata_def)
  next
    case None
    with idx have idx': "downloadStoreApply en r repomdPath [] (processMetadata_consumer en r) ([], []) w = (None, (dl0, rc0), w1)"
      by simp
    from assms q2 q3 show ?thesis
      unfolding processMetadata_stages [OF idx' asc key]
      by (auto split: if_splits)
  qed
qed

lemma calls_since_append:
  "trace w' = trace w @ evs \<Longrightarrow> calls_since w w' = filter is_call evs"
  by (simp add: calls_since_def)

lemma download_attempt_calls:
  assumes "downloadStoreApply en r path checksum Nop c w = (err, c', w')"
  shows "\<exists>evs. trace w' = trace w @ evs \<and> filter is_call evs = [Get (Url r @ ''/'' @ path)]"
  using assms
  by (auto simp: downloadStoreApply_def DownloadApply_def Compose_def storage_StoringMapper_def Nop_def
        split: sum.splits prod.splits option.splits)

lemma StoreRepo_download_append:
  "StoreRepo_download en r (xs @ ys) w =
     (case StoreRepo_download en r xs w of
        (Some e, w') \<Rightarrow> (Some e, w')
      | (None, w') \<Rightarrow> StoreRepo_download en r ys w')"
  by (induction xs arbitrary: w) (auto split: prod.splits option.splits)

lemma StoreRepo_download_calls:
  "StoreRepo_download en r ps w = (None, w') \<Longrightarrow>
     \<exists>evs. trace w' = trace w @ evs \<and> filter is_call evs = map (\<lambda>q. Get (package_url r q)) ps"
proof (induction ps arbitrary: w)
  case Nil
  then show ?case by simp
next
  case (Cons p ps)
  obtain e c w1 where one:
    "downloadStoreApply en r (Href (Location p)) (checksum_Checksum (Checksum p)) Nop () w = (e, c, w1)"
    by (metis prod_cases3)
  with Cons.prems have e: "e = None" and rest: "StoreRepo_download en r ps w1 = (None, w')"
    by (auto split: option.splits)
  from download_attempt_calls [OF one] obtain evs1 where
    1: "trace w1 = trace w @ evs1" "filter is_call evs1 = [Get (package_url r p)]"
    by (auto simp: package_url_def)
  from Cons.IH [OF rest] obtain evs2 where
    2: "trace w' = trace w1 @ evs2" "filter is_call evs2 = map (\<lambda>q. Get (package_url r q)) ps"
    by blast
  from 1 2 have "trace w' = trace w @ (evs1 @ evs2) \<and>
      filter is_call (evs1 @ evs2) = map (\<lambda>q. Get (package_url r q)) (p # ps)"
    by simp
  then show ?case by blast
qed

lemma storage_Recycle_trace:
  "storage_Recycle r path w = (err, w') \<Longrightarrow> trace w' = trace w @ [Recycled path]"
  by (auto simp: storage_Recycle_def split: prod.splits)

lemma StoreRepo_recycle_append:
  "StoreRepo_recycle r (xs @ ys) w =
     (case StoreRepo_recycle r xs w of
        (Some e, w') \<Rightarrow> (Some e, w')
      | (None, w') \<Rightarrow> StoreRepo_recycle r ys w')"
  by (induction xs arbitrary: w) (auto split: prod.splits option.splits)

lemma StoreRepo_recycle_trace:
  "StoreRepo_recycle r ps w = (None, w') \<Longrightarrow>
     trace w' = trace w @ map (\<lambda>q. Recycled (Href (Location q))) ps"
proof (induction ps arbitrary: w)
  case Nil
  then show ?case by simp
next
  case (Cons p ps)
  obtain e w1 where one: "storage_Recycle r (Href (Location p)) w = (e, w1)"
    by (metis surj_pair)
  with Cons.prems have rest: "StoreRepo_recycle r ps w1 = (None, w')"
    by (auto split: option.splits)
  from Cons.IH [OF rest] storage_Recycle_trace [OF one] show ?case by simp
qed

lemma storage_Commit_trace:
  "storage_Commit r w = (err, w') \<Longrightarrow> trace w' = trace w @ [Committed]"
  by (auto simp: storage_Commit_def split: prod.splits)

lemma storage_StoringMapper_other_calls:
  "storage_StoringMapper (r\<lparr>storage := (storage r)\<lparr>Recycle := rf, Commit := cf\<rparr>\<rparr>) =
     storage_StoringMapper r"
  by (intro ext) (simp add: storage_StoringMapper_def)

lemma downloadStoreApply_other_calls:
  "downloadStoreApply en (r\<lparr>storage := (storage r)\<lparr>Recycle := rf, Commit := cf\<rparr>\<rparr>) path checksum f c w =
     downloadStoreApply en r path checksum f c w"
  by (simp add: downloadStoreApply_def storage_StoringMapper_other_calls)

lemma downloadStore_other_calls:
  "downloadStore en (r\<lparr>storage := (storage r)\<lparr>Recycle := rf, Commit := cf\<rparr>\<rparr>) path w =
     downloadStore en r path w"
  by (simp add: downloadStore_def downloadStoreApply_other_calls)

lemma processPrimary_pack_other_calls:
  "processPrimary_pack (r\<lparr>storage := (storage r)\<lparr>Recycle := rf, Commit := cf\<rparr>\<rparr>) allArchs pack s =
     processPrimary_pack r allArchs pack s"
  by (cases s) (simp add: processPrimary_pack_def)

lemma processPrimary_loop_other_calls:
  "processPrimary_loop (r\<lparr>storage := (storage r)\<lparr>Recycle := rf, Commit := cf\<rparr>\<rparr>) allArchs ps s =
     processPrimary_loop r allArchs ps s"
  by (induction ps arbitrary: s) (simp_all add: processPrimary_pack_other_calls)

lemma processPrimary_consumer_other_calls:
  "processPrimary_consumer en (r\<lparr>storage := (storage r)\<lparr>Recycle := rf, Commit := cf\<rparr>\<rparr>) =
     processPrimary_consumer en r"
  by (intro ext)
    (simp add: processPrimary_consumer_def processPrimary_loop_other_calls Let_def split: sum.splits)

lemma processPrimary_other_calls:
  "processPrimary en (r\<lparr>storage := (storage r)\<lparr>Recycle := rf, Commit := cf\<rparr>\<rparr>) path w =
     processPrimary en r path w"
  by (simp add: processPrimary_def processPrimary_consumer_other_calls downloadStoreApply_other_calls)

lemma processMetadata_loop_other_calls:
  "processMetadata_loop en (r\<lparr>storage := (storage r)\<lparr>Recycle := rf, Commit := cf\<rparr>\<rparr>) ds c w =
     processMetadata_loop en r ds c w"
  by (induction ds arbitrary: c w)
    (simp_all add: processPrimary_other_calls downloadStore_other_calls Let_def
       split: prod.splits option.splits)

lemma processMetadata_consumer_other_calls:
  "processMetadata_consumer en (r\<lparr>storage := (storage r)\<lparr>Recycle := rf, Commit := cf\<rparr>\<rparr>) =
     processMetadata_consumer en r"
  by (intro ext)
    (simp add: processMetadata_consumer_def processMetadata_loop_other_calls split: sum.splits)

lemma processMetadata_other_calls:
  "processMetadata en (r\<lparr>storage := (storage r)\<lparr>Recycle := rf, Commit := cf\<rparr>\<rparr>) w =
     processMetadata en r w"
  unfolding processMetadata_def processMetadata_consumer_other_calls
    downloadStoreApply_other_calls downloadStore_other_calls
  by (rule refl)

lemma StoreRepo_download_other_calls:
  "StoreRepo_download en (r\<lparr>storage := (storage r)\<lparr>Recycle := rf, Commit := cf\<rparr>\<rparr>) ps w =
     StoreRepo_download en r ps w"
  by (induction ps arbitrary: w)
    (simp_all add: downloadStoreApply_other_calls split: prod.splits option.splits)

lemma StoreRepo_recycle_other_calls:
  "StoreRepo_recycle (r\<lparr>storage := (storage r)\<lparr>Commit := cf\<rparr>\<rparr>) ps w = StoreRepo_recycle r ps w"
  by (induction ps arbitrary: w)
    (simp_all add: storage_Recycle_def split: prod.splits option.splits)

lemma storage_Recycle_store:
  "storage_Recycle r path w = (err, w') \<Longrightarrow> Recycle (storage r) path (store w) = (err, store w')"
  by (auto simp: storage_Recycle_def split: prod.splits)

lemma storage_Commit_store:
  "storage_Commit r w = (err, w') \<Longrightarrow> Commit (storage r) (store w) = (err, store w')"
  by (auto simp: storage_Commit_def split: prod.splits)

lemma StoreRepo_recycle_store:
  "StoreRepo_recycle r ps w = (None, w') \<Longrightarrow>
     store w' = foldl (\<lambda>st q. snd (Recycle (storage r) (Href (Location q)) st)) (store w) ps"
proof (induction ps arbitrary: w)
  case Nil
  then show ?case by simp
next
  case (Cons p ps)
  obtain e w1 where one: "storage_Recycle r (Href (Location p)) w = (e, w1)"
    by (metis surj_pair)
  with Cons.prems have rest: "StoreRepo_recycle r ps w1 = (None, w')"
    by (auto split: option.splits)
  from Cons.IH [OF rest] storage_Recycle_store [OF one] show ?case by simp
qed

lemma download_attempt_store:
  "downloadStoreApply en r path checksum Nop c w = (err, c', w') \<Longrightarrow>
     store w' =
       (case httpGet en (Url r @ ''/'' @ path) of
          Inl e \<Rightarrow> store w
        | Inr body \<Rightarrow> snd (StoringMapper (storage r) path checksum body (store w)))"
  by (auto simp: downloadStoreApply_def DownloadApply_def Compose_def storage_StoringMapper_def
        Nop_def split: sum.splits prod.splits option.splits)

lemma StoreRepo_download_store:
  "StoreRepo_download en r ps w = (None, w') \<Longrightarrow>
     store w' =
       foldl (\<lambda>st q. case httpGet en (package_url r q) of
                  Inl e \<Rightarrow> st
                | Inr body \<Rightarrow>
                    snd (StoringMapper (storage r) (Href (Location q))
                           (checksum_Checksum (Checksum q)) body st)) (store w) ps"
proof (induction ps arbitrary: w)
  case Nil
  then show ?case by simp
next
  case (Cons p ps)
  obtain e c w1 where one:
    "downloadStoreApply en r (Href (Location p)) (checksum_Checksum (Checksum p)) Nop () w = (e, c, w1)"
    by (metis prod_cases3)
  with Cons.prems have rest: "StoreRepo_download en r ps w1 = (None, w')"
    by (auto split: option.splits)
  from Cons.IH [OF rest] download_attempt_store [OF one] show ?case
    by (simp add: package_url_def)
qed

text \<open>
  C6. StoreRepo returns the error of processMetadata at once, and processMetadata calls
  neither Recycle nor Commit: its result is the same whatever these two operations of the
  storage are, as is that of the download loop, and the recycle loop does not depend on
  Commit. After a successful processMetadata, in the state \<open>w1\<close>:
  when the download of \<open>p\<close> fails after the downloads of \<open>xs\<close> succeeded, StoreRepo
  returns that error in the state the failed download left, the storage is what the
  streaming writers of \<open>xs\<close> and \<open>p\<close> left, and the calls made since
  \<open>w1\<close> are the requests for \<open>xs\<close> and \<open>p\<close> only; when all downloads succeeded and the
  recycle of \<open>p\<close> fails after those of \<open>xs\<close>, StoreRepo returns the error that Recycle of
  the storage returned for \<open>p\<close>, on the storage that the downloads and then the recycles
  of \<open>xs\<close> left, and the calls are the requests for all of toDownload, then the recycles
  of \<open>xs\<close> and \<open>p\<close>, and no Commit; when all downloads and recycles succeeded, StoreRepo
  returns the error and leaves the storage that one call of Commit of the storage returns
  on the storage left by all downloads followed by all recycles, and the calls are all
  requests, then all recycles, then one Commit.
\<close>

theorem StoreRepo_stages:
  "(processMetadata en r w = (dl, rc, Some e, w1) \<longrightarrow> StoreRepo en r w = (Some e, w1)) \<and>
   (processMetadata en r w = (dl, rc, err, w1) \<longrightarrow> no_update w w1) \<and>
   (processMetadata en r w = (dl, rc, None, w1) \<longrightarrow>
      (\<forall>xs p ys e wa wb.
         dl = xs @ p # ys \<and>
         StoreRepo_download en r xs (log_Printf (Downloading_packages (length dl)) w1) = (None, wa) \<and>
         downloadStoreApply en r (Href (Location p)) (checksum_Checksum (Checksum p)) Nop () wa =
           (Some e, (), wb) \<longrightarrow>
           StoreRepo en r w = (Some e, wb) \<and>
           store wb =
             foldl (\<lambda>st q. case httpGet en (package_url r q) of
                      Inl e' \<Rightarrow> st
                    | Inr body \<Rightarrow>
                        snd (StoringMapper (storage r) (Href (Location q))
                               (checksum_Checksum (Checksum q)) body st)) (store w1) (xs @ [p]) \<and>
           calls_since w1 wb = map (\<lambda>q. Get (package_url r q)) (xs @ [p])) \<and>
      (\<forall>w2 xs p ys e wa wb.
         StoreRepo_download en r dl (log_Printf (Downloading_packages (length dl)) w1) = (None, w2) \<and>
         rc = xs @ p # ys \<and>
         StoreRepo_recycle r xs (log_Printf (Recycling_packages (length rc)) w2) = (None, wa) \<and>
         storage_Recycle r (Href (Location p)) wa = (Some e, wb) \<longrightarrow>
           StoreRepo en r w = (Some e, wb) \<and>
           store w2 =
             foldl (\<lambda>st q. case httpGet en (package_url r q) of
                      Inl e' \<Rightarrow> st
                    | Inr body \<Rightarrow>
                        snd (StoringMapper (storage r) (Href (Location q))
                               (checksum_Checksum (Checksum q)) body st)) (store w1) dl \<and>
           store wa = foldl (\<lambda>st q. snd (Recycle (storage r) (Href (Location q)) st)) (store w2) xs \<and>
           Recycle (storage r) (Href (Location p)) (store wa) = (Some e, store wb) \<and>
           calls_since w1 wb =
             map (\<lambda>q. Get (package_url r q)) dl @ map (\<lambda>q. Recycled (Href (Location q))) (xs @ [p])) \<and>
      (\<forall>w2 w3.
         StoreRepo_download en r dl (log_Printf (Downloading_packages (length dl)) w1) = (None, w2) \<and>
         StoreRepo_recycle r rc (log_Printf (Recycling_packages (length rc)) w2) = (None, w3) \<longrightarrow>
           StoreRepo en r w = storage_Commit r (log_Printf Committing_changes w3) \<and>
           store w2 =
             foldl (\<lambda>st q. case httpGet en (package_url r q) of
                      Inl e' \<Rightarrow> st
                    | Inr body \<Rightarrow>
                        snd (StoringMapper (storage r) (Href (Location q))
                               (checksum_Checksum (Checksum q)) body st)) (store w1) dl \<and>
           store w3 = foldl (\<lambda>st q. snd (Recycle (storage r) (Href (Location q)) st)) (store w2) rc \<and>
           (fst (StoreRepo en r w), store (snd (StoreRepo en r w))) = Commit (storage r) (store w3) \<and>
           calls_since w1 (snd (StoreRepo en r w)) =
             map (\<lambda>q. Get (package_url r q)) dl @ map (\<lambda>q. Recycled (Href (Location q))) rc @
             [Committed])) \<and>
   processMetadata en (r\<lparr>storage := (storage r)\<lparr>Recycle := rf, Commit := cf\<rparr>\<rparr>) w =
     processMetadata en r w \<and>
   StoreRepo_download en (r\<lparr>storage := (storage r)\<lparr>Recycle := rf, Commit := cf\<rparr>\<rparr>) dl w0 =
     StoreRepo_download en r dl w0 \<and>
   StoreRepo_recycle (r\<lparr>storage := (storage r)\<lparr>Commit := cf\<rparr>\<rparr>) rc w0 = StoreRepo_recycle r rc w0"
proof (intro conjI impI allI)
  assume "processMetadata en r w = (dl, rc, Some e, w1)"
  then show "StoreRepo en r w = (Some e, w1)"
    by (simp add: StoreRepo_def)
next
  assume "processMetadata en r w = (dl, rc, err, w1)"
  then show "no_update w w1" by (rule processMetadata_no_update)
next
  show "processMetadata en (r\<lparr>storage := (storage r)\<lparr>Recycle := rf, Commit := cf\<rparr>\<rparr>) w =
      processMetadata en r w"
    by (rule processMetadata_other_calls)
next
  show "StoreRepo_download en (r\<lparr>storage := (storage r)\<lparr>Recycle := rf, Commit := cf\<rparr>\<rparr>) dl w0 =
      StoreRepo_download en r dl w0"
    by (rule StoreRepo_download_other_calls)
next
  show "StoreRepo_recycle (r\<lparr>storage := (storage r)\<lparr>Commit := cf\<rparr>\<rparr>) rc w0 = StoreRepo_recycle r rc w0"
    by (rule StoreRepo_recycle_other_calls)
next
  fix xs p ys e wa wb
  assume pm: "processMetadata en r w = (dl, rc, None, w1)"
    and fail: "dl = xs @ p # ys \<and>
         StoreRepo_download en r xs (log_Printf (Downloading_packages (length dl)) w1) = (None, wa) \<and>
         downloadStoreApply en r (Href (Location p)) (checksum_Checksum (Checksum p)) Nop () wa =
           (Some e, (), wb)"
  define W where "W = log_Printf (Downloading_packages (length dl)) w1"
  from fail have d1: "dl = xs @ p # ys" and d2: "StoreRepo_download en r xs W = (None, wa)"
    and d3: "downloadStoreApply en r (Href (Location p)) (checksum_Checksum (Checksum p)) Nop () wa =
           (Some e, (), wb)"
    unfolding W_def by blast+
  from d2 d3 have "StoreRepo_download en r (xs @ p # ys) W = (Some e, wb)"
    by (simp add: StoreRepo_download_append)
  then have loop: "StoreRepo_download en r dl W = (Some e, wb)"
    unfolding d1 .
  with pm show "StoreRepo en r w = (Some e, wb)"
    by (simp add: StoreRepo_def W_def)
  from StoreRepo_download_store [OF d2] download_attempt_store [OF d3]
  show "store wb =
      foldl (\<lambda>st q. case httpGet en (package_url r q) of
                 Inl e' \<Rightarrow> st
               | Inr body \<Rightarrow>
                   snd (StoringMapper (storage r) (Href (Location q))
                          (checksum_Checksum (Checksum q)) body st)) (store w1) (xs @ [p])"
    by (simp add: W_def package_url_def split: sum.splits)
  from StoreRepo_download_calls [OF d2] obtain evs1 where
    1: "trace wa = trace W @ evs1" "filter is_call evs1 = map (\<lambda>q. Get (package_url r q)) xs"
    by blast
  from download_attempt_calls [OF d3] obtain evs2 where
    2: "trace wb = trace wa @ evs2" "filter is_call evs2 = [Get (package_url r p)]"
    by (auto simp: package_url_def)
  from 1 2 have "trace wb = trace w1 @ (Log (Downloading_packages (length dl)) # evs1 @ evs2)"
    by (simp add: W_def)
  from calls_since_append [OF this] 1 2
  show "calls_since w1 wb = map (\<lambda>q. Get (package_url r q)) (xs @ [p])"
    by simp
next
  fix w2 xs p ys e wa wb
  assume pm: "processMetadata en r w = (dl, rc, None, w1)"
    and fail: "StoreRepo_download en r dl (log_Printf (Downloading_packages (length dl)) w1) = (None, w2) \<and>
         rc = xs @ p # ys \<and>
         StoreRepo_recycle r xs (log_Printf (Recycling_packages (length rc)) w2) = (None, wa) \<and>
         storage_Recycle r (Href (Location p)) wa = (Some e, wb)"
  let ?W = "log_Printf (Downloading_packages (length dl)) w1"
  define V where "V = log_Printf (Recycling_packages (length rc)) w2"
  from fail have r1: "rc = xs @ p # ys" and r2: "StoreRepo_recycle r xs V = (None, wa)"
    and dls: "StoreRepo_download en r dl ?W = (None, w2)"
    and r3: "storage_Recycle r (Href (Location p)) wa = (Some e, wb)"
    unfolding V_def by blast+
  from r2 r3 have "StoreRepo_recycle r (xs @ p # ys) V = (Some e, wb)"
    by (simp add: StoreRepo_recycle_append)
  then have loop: "StoreRepo_recycle r rc V = (Some e, wb)"
    unfolding r1 .
  with pm dls show "StoreRepo en r w = (Some e, wb)"
    by (simp add: StoreRepo_def V_def)
  from StoreRepo_download_store [OF dls]
  show "store w2 =
      foldl (\<lambda>st q. case httpGet en (package_url r q) of
                 Inl e' \<Rightarrow> st
               | Inr body \<Rightarrow>
                   snd (StoringMapper (storage r) (Href (Location q))
                          (checksum_Checksum (Checksum q)) body st)) (store w1) dl"
    by simp
  from StoreRepo_recycle_store [OF r2]
  show "store wa = foldl (\<lambda>st q. snd (Recycle (storage r) (Href (Location q)) st)) (store w2) xs"
    by (simp add: V_def)
  from storage_Recycle_store [OF r3]
  show "Recycle (storage r) (Href (Location p)) (store wa) = (Some e, store wb)" .
  from StoreRepo_download_calls [OF dls] obtain evs1 where
    1: "trace w2 = trace ?W @ evs1" "filter is_call evs1 = map (\<lambda>q. Get (package_url r q)) dl"
    by blast
  from StoreRepo_recycle_trace [OF r2]
  have 2: "trace wa = trace V @ map (\<lambda>q. Recycled (Href (Location q))) xs" .
  from storage_Recycle_trace [OF r3]
  have 3: "trace wb = trace wa @ [Recycled (Href (Location p))]" .
  from 1 2 3 have "trace wb = trace w1 @ (Log (Downloading_packages (length dl)) # evs1 @
      Log (Recycling_packages (length rc)) # map (\<lambda>q. Recycled (Href (Location q))) (xs @ [p]))"
    by (simp add: V_def)
  from calls_since_append [OF this] 1
  show "calls_since w1 wb =
      map (\<lambda>q. Get (package_url r q)) dl @ map (\<lambda>q. Recycled (Href (Location q))) (xs @ [p])"
    by (simp add: filter_map comp_def)
next
  fix w2 w3
  assume pm: "processMetadata en r w = (dl, rc, None, w1)"
    and ok: "StoreRepo_download en r dl (log_Printf (Downloading_packages (length dl)) w1) = (None, w2) \<and>
         StoreRepo_recycle r rc (log_Printf (Recycling_packages (length rc)) w2) = (None, w3)"
  let ?W = "log_Printf (Downloading_packages (length dl)) w1"
  let ?V = "log_Printf (Recycling_packages (length rc)) w2"
  from ok have dls: "StoreRepo_download en r dl ?W = (None, w2)"
    and rcs: "StoreRepo_recycle r rc ?V = (None, w3)"
    by blast+
  from pm ok show run: "StoreRepo en r w = storage_Commit r (log_Printf Committing_changes w3)"
    by (simp add: StoreRepo_def)
  obtain ce w4 where cm: "storage_Commit r (log_Printf Committing_changes w3) = (ce, w4)"
    by (metis surj_pair)
  from StoreRepo_download_store [OF dls]
  show "store w2 =
      foldl (\<lambda>st q. case httpGet en (package_url r q) of
                 Inl e' \<Rightarrow> st
               | Inr body \<Rightarrow>
                   snd (StoringMapper (storage r) (Href (Location q))
                          (checksum_Checksum (Checksum q)) body st)) (store w1) dl"
    by simp
  from StoreRepo_recycle_store [OF rcs]
  show "store w3 = foldl (\<lambda>st q. snd (Recycle (storage r) (Href (Location q)) st)) (store w2) rc"
    by simp
  from storage_Commit_store [OF cm]
  show "(fst (StoreRepo en r w), store (snd (StoreRepo en r w))) = Commit (storage r) (store w3)"
    unfolding run cm by simp
  from ok StoreRepo_download_calls [of en r dl ?W w2] obtain evs1 where
    1: "trace w2 = trace ?W @ evs1" "filter is_call evs1 = map (\<lambda>q. Get (package_url r q)) dl"
    by blast
  from ok StoreRepo_recycle_trace [of r rc ?V w3]
  have 2: "trace w3 = trace ?V @ map (\<lambda>q. Recycled (Href (Location q))) rc"
    by blast
  from storage_Commit_trace [OF cm]
  have 3: "trace w4 = trace (log_Printf Committing_changes w3) @ [Committed]" .
  from 1 2 3 have "trace w4 = trace w1 @ (Log (Downloading_packages (length dl)) # evs1 @
      Log (Recycling_packages (length rc)) # map (\<lambda>q. Recycled (Href (Location q))) rc @
      [Log Committing_changes, Committed])"
    by simp
  from calls_since_append [OF this] 1
  show "calls_since w1 (snd (StoreRepo en r w)) =
      map (\<lambda>q. Get (package_url r q)) dl @ map (\<lambda>q. Recycled (Href (Location q))) rc @ [Committed]"
    unfolding run cm by (simp add: filter_map comp_def)
qed

lemmas ex_defs = ex_env_def ex_remote_def ex_syncer_def ex_world_def ex_store_def ex_index_def
  ex_packages_def ex_pack_def ex_hash_def ContentStore_def cs_streamingWriter_def cs_checksum_def
  cs_recycle_def cs_commit_def ex_env_c_def ex_syncer_norecycle_def

lemmas run_defs = processMetadata_def processMetadata_consumer_def processPrimary_def
  processPrimary_consumer_def processPrimary_pack_def downloadStore_def downloadStoreApply_def
  DownloadApply_def Compose_def Nop_def storage_StoringMapper_def storage_Recycle_def storage_Commit_def
  repomdPath_def checksumTypeMap_index_def checksumTypeMap_def emit_def log_Printf_def Let_def
  HasSuffix_def decimal_404 suffix_def

lemma ex_processMetadata:
  "\<exists>w1. processMetadata ex_env ex_syncer ex_world =
     ([ex_pack ''x86_64'' ''a'' ''sha256'' ''2A'', ex_pack ''x86_64'' ''c'' ''sha256'' ''2C''],
      [ex_pack ''noarch'' ''b'' ''sha'' ''1B''], None, w1)"
  by (simp add: ex_defs run_defs)

lemma ex_processMetadata_c:
  "\<exists>w1. processMetadata ex_env_c ex_syncer ex_world =
     ([ex_pack ''x86_64'' ''a'' ''sha256'' ''2A'', ex_pack ''x86_64'' ''c'' ''sha256'' ''2C''],
      [ex_pack ''noarch'' ''b'' ''sha'' ''1B''], None, w1)"
  by (simp add: ex_defs run_defs)

lemma ex_processMetadata_norecycle:
  "\<exists>w1. processMetadata ex_env ex_syncer_norecycle ex_world =
     ([ex_pack ''x86_64'' ''a'' ''sha256'' ''2A'', ex_pack ''x86_64'' ''c'' ''sha256'' ''2C''],
      [ex_pack ''noarch'' ''b'' ''sha'' ''1B''], None, w1)"
  by (simp add: ex_defs run_defs)

lemma ex_processMetadata_store:
  "\<exists>w1. processMetadata ex_env ex_syncer ex_world =
     ([ex_pack ''x86_64'' ''a'' ''sha256'' ''2A'', ex_pack ''x86_64'' ''c'' ''sha256'' ''2C''],
      [ex_pack ''noarch'' ''b'' ''sha'' ''1B''], None, w1) \<and>
     committed (store w1) = committed ex_store \<and>
     in_progress (store w1) ''b'' = None \<and> in_progress (store w1) ''d'' = None"
  by (simp add: ex_defs run_defs)

lemma ex_processMetadata_c_store:
  "\<exists>w1. processMetadata ex_env_c ex_syncer ex_world =
     ([ex_pack ''x86_64'' ''a'' ''sha256'' ''2A'', ex_pack ''x86_64'' ''c'' ''sha256'' ''2C''],
      [ex_pack ''noarch'' ''b'' ''sha'' ''1B''], None, w1) \<and>
     committed (store w1) = committed ex_store \<and>
     in_progress (store w1) ''b'' = None \<and> in_progress (store w1) ''d'' = None"
  by (simp add: ex_defs run_defs)

lemma ex_processMetadata_norecycle_store:
  "\<exists>w1. processMetadata ex_env ex_syncer_norecycle ex_world =
     ([ex_pack ''x86_64'' ''a'' ''sha256'' ''2A'', ex_pack ''x86_64'' ''c'' ''sha256'' ''2C''],
      [ex_pack ''noarch'' ''b'' ''sha'' ''1B''], None, w1) \<and>
     committed (store w1) = committed ex_store \<and>
     in_progress (store w1) ''b'' = None \<and> in_progress (store w1) ''d'' = None"
  by (simp add: ex_defs run_defs)

theorem StoreRepo_stages_witness:
  "fst (StoreRepo (ex_env_bare (Inl (HttpError 404)) (Inl (HttpError 404))) (ex_syncer\<lparr>Url := ''v''\<rparr>) ex_world) =
     Some (HttpError 404) \<and>
   fst (StoreRepo ex_env_c ex_syncer ex_world) = Some (HttpError 500) \<and>
   calls_since (snd (snd (snd (processMetadata ex_env_c ex_syncer ex_world))))
     (snd (StoreRepo ex_env_c ex_syncer ex_world)) = [Get ''u/a'', Get ''u/c''] \<and>
   fst (StoreRepo ex_env ex_syncer_norecycle ex_world) = Some (Failure ''RecycleError'') \<and>
   calls_since (snd (snd (snd (processMetadata ex_env ex_syncer_norecycle ex_world))))
     (snd (StoreRepo ex_env ex_syncer_norecycle ex_world)) = [Get ''u/a'', Get ''u/c'', Recycled ''b''] \<and>
   fst (StoreRepo ex_env ex_syncer ex_world) = None \<and>
   calls_since (snd (snd (snd (processMetadata ex_env ex_syncer ex_world))))
     (snd (StoreRepo ex_env ex_syncer ex_world)) = [Get ''u/a'', Get ''u/c'', Recycled ''b'', Committed] \<and>
   committed (store (snd (StoreRepo ex_env_c ex_syncer ex_world))) = committed ex_store \<and>
   in_progress (store (snd (StoreRepo ex_env_c ex_syncer ex_world))) ''a'' = Some ''A'' \<and>
   committed (store (snd (StoreRepo ex_env ex_syncer_norecycle ex_world))) = committed ex_store \<and>
   in_progress (store (snd (StoreRepo ex_env ex_syncer_norecycle ex_world))) ''b'' = None \<and>
   committed (store (snd (StoreRepo ex_env ex_syncer ex_world))) ''a'' = Some ''A'' \<and>
   committed (store (snd (StoreRepo ex_env ex_syncer ex_world))) ''b'' = Some ''B'' \<and>
   committed (store (snd (StoreRepo ex_env ex_syncer ex_world))) ''c'' = Some ''C'' \<and>
   committed (store (snd (StoreRepo ex_env ex_syncer ex_world))) ''d'' = None \<and>
   in_progress (store (snd (StoreRepo ex_env ex_syncer ex_world))) = Map.empty"
proof -
  let ?a = "ex_pack ''x86_64'' ''a'' ''sha256'' ''2A''"
  let ?b = "ex_pack ''noarch'' ''b'' ''sha'' ''1B''"
  let ?c = "ex_pack ''x86_64'' ''c'' ''sha256'' ''2C''"
  let ?e4 = "ex_env_bare (Inl (HttpError 404)) (Inl (HttpError 404))"
  let ?v = "ex_syncer\<lparr>Url := ''v''\<rparr>"
  have "httpGet ?e4 (Url ?v @ ''/'' @ repomdPath) = Inl (HttpError 404)"
    by (simp add: ex_env_bare_def ex_remote_bare_def repomdPath_def)
  from processMetadata_index_fails(1) [OF this, of ex_world]
    StoreRepo_stages [where en = ?e4 and r = ?v and w = ex_world and dl = "[]" and rc = "[]"
      and e = "HttpError 404"]
  have first: "fst (StoreRepo ?e4 ?v ex_world) = Some (HttpError 404)"
    by simp
  obtain w1 where pm: "processMetadata ex_env_c ex_syncer ex_world = ([?a, ?c], [?b], None, w1)"
    and s1: "committed (store w1) = committed ex_store"
    using ex_processMetadata_c_store by blast
  obtain wa where d2: "StoreRepo_download ex_env_c ex_syncer [?a]
      (log_Printf (Downloading_packages (length [?a, ?c])) w1) = (None, wa)"
    by (simp add: ex_defs run_defs)
  obtain wb where d3: "downloadStoreApply ex_env_c ex_syncer (Href (Location ?c))
      (checksum_Checksum (Checksum ?c)) Nop () wa = (Some (HttpError 500), (), wb)"
    by (simp add: ex_defs run_defs)
  have prem2: "[?a, ?c] = [?a] @ ?c # [] \<and>
      StoreRepo_download ex_env_c ex_syncer [?a]
        (log_Printf (Downloading_packages (length [?a, ?c])) w1) = (None, wa) \<and>
      downloadStoreApply ex_env_c ex_syncer (Href (Location ?c))
        (checksum_Checksum (Checksum ?c)) Nop () wa = (Some (HttpError 500), (), wb)"
    using d2 d3 by simp
  from StoreRepo_stages [THEN conjunct2, THEN conjunct2, THEN conjunct1, THEN mp, THEN conjunct1,
      rule_format, OF pm prem2]
  have "StoreRepo ex_env_c ex_syncer ex_world = (Some (HttpError 500), wb) \<and>
        store wb =
          foldl (\<lambda>st q. case httpGet ex_env_c (package_url ex_syncer q) of
                     Inl e' \<Rightarrow> st
                   | Inr body \<Rightarrow>
                       snd (StoringMapper (storage ex_syncer) (Href (Location q))
                              (checksum_Checksum (Checksum q)) body st)) (store w1) ([?a] @ [?c]) \<and>
        calls_since w1 wb = map (\<lambda>q. Get (package_url ex_syncer q)) ([?a] @ [?c])" .
  then have second: "fst (StoreRepo ex_env_c ex_syncer ex_world) = Some (HttpError 500) \<and>
      calls_since (snd (snd (snd (processMetadata ex_env_c ex_syncer ex_world))))
        (snd (StoreRepo ex_env_c ex_syncer ex_world)) = [Get ''u/a'', Get ''u/c''] \<and>
      committed (store (snd (StoreRepo ex_env_c ex_syncer ex_world))) = committed ex_store \<and>
      in_progress (store (snd (StoreRepo ex_env_c ex_syncer ex_world))) ''a'' = Some ''A''"
    using s1 by (simp add: pm) (simp add: package_url_def ex_defs)
  obtain v1 where pm': "processMetadata ex_env ex_syncer_norecycle ex_world = ([?a, ?c], [?b], None, v1)"
    and t1: "committed (store v1) = committed ex_store" "in_progress (store v1) ''b'' = None"
    using ex_processMetadata_norecycle_store by blast
  obtain v2 where e2: "StoreRepo_download ex_env ex_syncer_norecycle [?a, ?c]
      (log_Printf (Downloading_packages (length [?a, ?c])) v1) = (None, v2)"
    by (simp add: ex_defs run_defs)
  have e3: "StoreRepo_recycle ex_syncer_norecycle []
      (log_Printf (Recycling_packages (length [?b])) v2) =
        (None, log_Printf (Recycling_packages (length [?b])) v2)"
    by simp
  obtain vb where e4: "storage_Recycle ex_syncer_norecycle (Href (Location ?b))
      (log_Printf (Recycling_packages (length [?b])) v2) = (Some (Failure ''RecycleError''), vb)"
    by (simp add: ex_defs run_defs)
  have prem3: "StoreRepo_download ex_env ex_syncer_norecycle [?a, ?c]
        (log_Printf (Downloading_packages (length [?a, ?c])) v1) = (None, v2) \<and>
      [?b] = [] @ ?b # [] \<and>
      StoreRepo_recycle ex_syncer_norecycle []
        (log_Printf (Recycling_packages (length [?b])) v2) =
          (None, log_Printf (Recycling_packages (length [?b])) v2) \<and>
      storage_Recycle ex_syncer_norecycle (Href (Location ?b))
        (log_Printf (Recycling_packages (length [?b])) v2) = (Some (Failure ''RecycleError''), vb)"
    using e2 e3 e4 by simp
  from StoreRepo_stages [THEN conjunct2, THEN conjunct2, THEN conjunct1, THEN mp, THEN conjunct2,
      THEN conjunct1, rule_format, OF pm' prem3]
  have "StoreRepo ex_env ex_syncer_norecycle ex_world = (Some (Failure ''RecycleError''), vb) \<and>
        store v2 =
          foldl (\<lambda>st q. case httpGet ex_env (package_url ex_syncer_norecycle q) of
                     Inl e' \<Rightarrow> st
                   | Inr body \<Rightarrow>
                       snd (StoringMapper (storage ex_syncer_norecycle) (Href (Location q))
                              (checksum_Checksum (Checksum q)) body st)) (store v1) [?a, ?c] \<and>
        store (log_Printf (Recycling_packages (length [?b])) v2) =
          foldl (\<lambda>st q. snd (Recycle (storage ex_syncer_norecycle) (Href (Location q)) st))
            (store v2) ([]::XMLPackage list) \<and>
        Recycle (storage ex_syncer_norecycle) (Href (Location ?b))
          (store (log_Printf (Recycling_packages (length [?b])) v2)) =
            (Some (Failure ''RecycleError''), store vb) \<and>
        calls_since v1 vb = map (\<lambda>q. Get (package_url ex_syncer_norecycle q)) [?a, ?c] @
          map (\<lambda>q. Recycled (Href (Location q))) ([] @ [?b])" .
  then have third: "fst (StoreRepo ex_env ex_syncer_norecycle ex_world) = Some (Failure ''RecycleError'') \<and>
      calls_since (snd (snd (snd (processMetadata ex_env ex_syncer_norecycle ex_world))))
        (snd (StoreRepo ex_env ex_syncer_norecycle ex_world)) = [Get ''u/a'', Get ''u/c'', Recycled ''b''] \<and>
      committed (store (snd (StoreRepo ex_env ex_syncer_norecycle ex_world))) = committed ex_store \<and>
      in_progress (store (snd (StoreRepo ex_env ex_syncer_norecycle ex_world))) ''b'' = None"
    using t1 by (simp add: pm') (auto simp add: package_url_def ex_defs)
  obtain u1 where pm'': "processMetadata ex_env ex_syncer ex_world = ([?a, ?c], [?b], None, u1)"
    and c1: "committed (store u1) = committed ex_store" "in_progress (store u1) ''b'' = None"
      "in_progress (store u1) ''d'' = None"
    using ex_processMetadata_store by blast
  obtain u2 where f2: "StoreRepo_download ex_env ex_syncer [?a, ?c]
      (log_Printf (Downloading_packages (length [?a, ?c])) u1) = (None, u2)"
    by (simp add: ex_defs run_defs)
  have pres: "committed (store u2) ''b'' = Some ''B''"
    using pm'' f2 by (auto simp add: ex_defs run_defs)
  obtain u3 where f3: "StoreRepo_recycle ex_syncer [?b]
      (log_Printf (Recycling_packages (length [?b])) u2) = (None, u3)"
    using pres by (simp add: ex_defs run_defs)
  obtain u4 where cm: "storage_Commit ex_syncer (log_Printf Committing_changes u3) = (None, u4)"
    by (simp add: storage_Commit_def ex_syncer_def ContentStore_def cs_commit_def)
  have urls: "map (\<lambda>q. Get (package_url ex_syncer q)) [?a, ?c] @
          map (\<lambda>q. Recycled (Href (Location q))) [?b] @ [Committed] =
        [Get ''u/a'', Get ''u/c'', Recycled ''b'', Committed]"
    by (simp add: package_url_def ex_syncer_def ex_pack_def)
  have prem4: "StoreRepo_download ex_env ex_syncer [?a, ?c]
        (log_Printf (Downloading_packages (length [?a, ?c])) u1) = (None, u2) \<and>
      StoreRepo_recycle ex_syncer [?b]
        (log_Printf (Recycling_packages (length [?b])) u2) = (None, u3)"
    using f2 f3 by simp
  from StoreRepo_stages [THEN conjunct2, THEN conjunct2, THEN conjunct1, THEN mp, THEN conjunct2,
      THEN conjunct2, rule_format, OF pm'' prem4]
  have all: "StoreRepo ex_env ex_syncer ex_world = storage_Commit ex_syncer (log_Printf Committing_changes u3) \<and>
        store u2 =
          foldl (\<lambda>st q. case httpGet ex_env (package_url ex_syncer q) of
                     Inl e' \<Rightarrow> st
                   | Inr body \<Rightarrow>
                       snd (StoringMapper (storage ex_syncer) (Href (Location q))
                              (checksum_Checksum (Checksum q)) body st)) (store u1) [?a, ?c] \<and>
        store u3 = foldl (\<lambda>st q. snd (Recycle (storage ex_syncer) (Href (Location q)) st)) (store u2) [?b] \<and>
        (fst (StoreRepo ex_env ex_syncer ex_world), store (snd (StoreRepo ex_env ex_syncer ex_world))) =
          Commit (storage ex_syncer) (store u3) \<and>
        calls_since u1 (snd (StoreRepo ex_env ex_syncer ex_world)) =
          map (\<lambda>q. Get (package_url ex_syncer q)) [?a, ?c] @
          map (\<lambda>q. Recycled (Href (Location q))) [?b] @ [Committed]" .
  then have fourth: "fst (StoreRepo ex_env ex_syncer ex_world) = None \<and>
      calls_since (snd (snd (snd (processMetadata ex_env ex_syncer ex_world))))
        (snd (StoreRepo ex_env ex_syncer ex_world)) = [Get ''u/a'', Get ''u/c'', Recycled ''b'', Committed]"
    unfolding urls by (auto simp add: pm'' cm)
  from all have "store (snd (StoreRepo ex_env ex_syncer ex_world)) =
      snd (Commit (storage ex_syncer)
        (foldl (\<lambda>st q. snd (Recycle (storage ex_syncer) (Href (Location q)) st))
          (foldl (\<lambda>st q. case httpGet ex_env (package_url ex_syncer q) of
                     Inl e' \<Rightarrow> st
                   | Inr body \<Rightarrow>
                       snd (StoringMapper (storage ex_syncer) (Href (Location q))
                              (checksum_Checksum (Checksum q)) body st)) (store u1) [?a, ?c]) [?b]))"
    by (metis snd_conv)
  with c1 have fifth: "committed (store (snd (StoreRepo ex_env ex_syncer ex_world))) ''a'' = Some ''A'' \<and>
      committed (store (snd (StoreRepo ex_env ex_syncer ex_world))) ''b'' = Some ''B'' \<and>
      committed (store (snd (StoreRepo ex_env ex_syncer ex_world))) ''c'' = Some ''C'' \<and>
      committed (store (snd (StoreRepo ex_env ex_syncer ex_world))) ''d'' = None \<and>
      in_progress (store (snd (StoreRepo ex_env ex_syncer ex_world))) = Map.empty"
    by (simp add: package_url_def ex_defs)
  from first second third fourth fifth show ?thesis by simp
qed

section \<open>Properties of the storing reader\<close>

subsection \<open>What is read is written\<close>

lemma File_Write_persisted:
  "File_Write p f = (n, e, f') \<Longrightarrow>
     persisted f' = persisted f @ take n p \<and> n \<le> length p \<and> (e = None \<longrightarrow> n = length p) \<and>
     file_name f' = file_name f"
  by (auto simp: File_Write_def split: if_splits)

lemma Flush_written:
  assumes "Flush b = (e, b')"
  shows "written b' = written b" and "e = None \<Longrightarrow> b_err b = None \<and> buf b' = []"
    and "file_name (wr b') = file_name (wr b)"
proof -
  obtain n we f where fw: "File_Write (buf b) (wr b) = (n, we, f)"
    by (metis prod_cases3)
  note File_Write_persisted [OF fw]
  with assms fw show "written b' = written b" and "e = None \<Longrightarrow> b_err b = None \<and> buf b' = []"
    and "file_name (wr b') = file_name (wr b)"
    by (auto simp: Flush_def written_def split: option.splits if_splits)
qed

lemma take_split_count:
  assumes "nn + k \<le> (n::nat)"
  shows "take k p @ take (n - (nn + k)) (drop k p) = take (n - nn) p"
proof -
  from assms have "n - nn = k + (n - (nn + k))" by simp
  then show ?thesis by (simp add: take_add)
qed

lemma bufio_Write_loop_written:
  "bufio_Write_loop p b nn = (n, e, b') \<Longrightarrow>
     nn \<le> n \<and> written b' = written b @ take (n - nn) p \<and> (e = None \<longrightarrow> n - nn = length p) \<and>
     file_name (wr b') = file_name (wr b)"
proof (induction p b nn arbitrary: n e b' rule: bufio_Write_loop.induct)
  case (1 p b nn)
  show ?case
  proof (cases "length p > Available b \<and> b_err b = None")
    case loop: True
    show ?thesis
    proof (cases "Buffered b = 0")
      case True
      obtain k we f where fw: "File_Write p (wr b) = (k, we, f)"
        by (metis prod_cases3)
      from "1.prems" loop True fw
      have rec: "bufio_Write_loop (drop k p) (b\<lparr>b_err := we, wr := f\<rparr>) (nn + k) = (n, e, b')"
        by (simp add: bufio_Write_loop.simps [of p b nn])
      note ih = "1.IH"(1) [OF loop True fw [symmetric] refl rec]
      note w = File_Write_persisted [OF fw]
      from ih have le: "nn + k \<le> n" by simp
      have "written (b\<lparr>b_err := we, wr := f\<rparr>) = written b @ take k p"
        using w True by (simp add: written_def Buffered_def)
      with ih have "written b' = written b @ take k p @ take (n - (nn + k)) (drop k p)"
        by simp
      then have 1: "written b' = written b @ take (n - nn) p"
        by (simp add: take_split_count [OF le])
      have 2: "e = None \<longrightarrow> n - nn = length p"
        using ih w le by auto
      from le 1 2 ih w show ?thesis by simp
    next
      case False
      let ?k = "min (Available b) (length p)"
      let ?b1 = "b\<lparr>buf := buf b @ take ?k p\<rparr>"
      obtain fe b2 where fl: "Flush ?b1 = (fe, b2)"
        by (metis surj_pair)
      from "1.prems" loop False fl
      have rec: "bufio_Write_loop (drop ?k p) b2 (nn + ?k) = (n, e, b')"
        by (simp add: bufio_Write_loop.simps [of p b nn] Let_def)
      have b2: "snd (Flush ?b1) = b2" using fl by simp
      note ih = "1.IH"(2) [OF loop False refl, unfolded b2, OF rec]
      note w = Flush_written(1,3) [OF fl]
      from ih have le: "nn + ?k \<le> n" by simp
      have "written b2 = written b @ take ?k p"
        using w by (simp add: written_def)
      with ih have "written b' = written b @ take ?k p @ take (n - (nn + ?k)) (drop ?k p)"
        by simp
      then have 1: "written b' = written b @ take (n - nn) p"
        by (simp only: take_split_count [OF le])
      have 2: "e = None \<longrightarrow> n - nn = length p"
        using ih le by auto
      from le 1 2 ih w show ?thesis by simp
    qed
  next
    case False
    with "1.prems" show ?thesis
      by (auto simp: bufio_Write_loop.simps [of p b nn] written_def split: if_splits)
  qed
qed

lemma bufio_Write_written:
  "bufio_Write p b = (n, e, b') \<Longrightarrow>
     written b' = written b @ take n p \<and> (e = None \<longrightarrow> n = length p) \<and>
     file_name (wr b') = file_name (wr b)"
  using bufio_Write_loop_written [of p b 0 n e b'] by (simp add: bufio_Write_def)

lemma storingReader_Read_written:
  assumes "storingReader_Read ops len t = (p, e, t')"
  shows "written (writer t') = written (writer t) @ p"
    and "file_name (wr (writer t')) = file_name (wr (writer t))"
proof -
  obtain q re rd where rd: "Read ops len (reader t) = (q, re, rd)"
    by (metis prod_cases3)
  obtain n we b where bw: "bufio_Write q (writer t) = (n, we, b)"
    by (metis prod_cases3)
  note w = bufio_Write_written [OF bw]
  from assms rd bw w show "written (writer t') = written (writer t) @ p"
    and "file_name (wr (writer t')) = file_name (wr (writer t))"
    by (auto simp: storingReader_Read_def teeReader_Read_def split: if_splits option.splits)
qed

lemma Reads_written:
  "Reads ops lens t = (results, t') \<Longrightarrow>
     written (writer t') = written (writer t) @ concat (map fst results) \<and>
     file_name (wr (writer t')) = file_name (wr (writer t))"
proof (induction lens arbitrary: t results)
  case Nil
  then show ?case by auto
next
  case (Cons len lens)
  obtain p e t1 where one: "storingReader_Read ops len t = (p, e, t1)"
    by (metis prod_cases3)
  obtain rs t2 where rest: "Reads ops lens t1 = (rs, t2)"
    by (metis surj_pair)
  from Cons.prems one rest have res: "results = (p, e) # rs" and t2: "t2 = t'"
    by simp_all
  from Cons.IH [OF rest [unfolded t2]] storingReader_Read_written [OF one] res show ?case
    by simp
qed

text \<open>
  C7 (amended). For any sequence of Read calls on the reader that NewStoringReader
  returns, the file is the one at the directory joined with the file name, and the bytes
  delivered are, in order, the bytes persisted to the file followed by the bytes still in
  the writer's buffer. After a Close that returns no error the file holds exactly the
  bytes delivered.
\<close>

theorem storingReader_writes_through:
  assumes new: "NewStoringReader sys s filename rd = Inr t0"
    and reads: "Reads ops lens t0 = (results, t1)"
    and close: "storingReader_Close ops t1 = (cerr, t2)"
  shows "file_name (wr (writer t2)) = path_Join sys (directory s) filename \<and>
         persisted (wr (writer t1)) @ buf (writer t1) = concat (map fst results) \<and>
         persisted (wr (writer t2)) @ buf (writer t2) = concat (map fst results) \<and>
         (cerr = None \<longrightarrow> persisted (wr (writer t2)) = concat (map fst results))"
proof -
  from new have t0: "written (writer t0) = []"
    "file_name (wr (writer t0)) = path_Join sys (directory s) filename"
    by (auto simp: NewStoringReader_def written_def bufio_NewWriter_def split: sum.splits)
  from Reads_written [OF reads] t0
  have t1: "written (writer t1) = concat (map fst results)"
    "file_name (wr (writer t1)) = path_Join sys (directory s) filename"
    by simp_all
  obtain ce rd' where cl: "Close ops (reader t1) = (ce, rd')"
    by (metis surj_pair)
  obtain fe b where fl: "Flush (writer t1) = (fe, b)"
    by (metis surj_pair)
  note f = Flush_written [OF fl]
  from close cl fl f t1
  have t2: "written (writer t2) = concat (map fst results)"
    "file_name (wr (writer t2)) = path_Join sys (directory s) filename"
    "cerr = None \<longrightarrow> buf (writer t2) = []"
    by (auto simp: storingReader_Close_def split: option.splits)
  from t1 t2 show ?thesis
    by (auto simp: written_def)
qed

lemmas sr_defs = ex_storingReader_def ex_reader_def ex_os_def bytes_ReadCloser_def NewStoringReader_def
  storingReader_Read_def teeReader_Read_def storingReader_Close_def bufio_Write_def
  bufio_Write_loop.simps Flush_def File_Write_def bufio_NewWriter_def defaultBufSize_def Available_def
  Buffered_def EOF_def

lemma ex_new: "NewStoringReader (ex_os space) \<lparr>directory = ''d''\<rparr> ''f'' (ex_reader ce) =
    Inr (ex_storingReader space ce)"
  by (simp add: sr_defs)

text \<open>
  C7, as stated, fails where the device runs out of room: the Read succeeds and delivers
  three bytes, the Flush of Close can persist two, and Close returns the error. It also
  fails where the Close of the reader fails: the Read succeeds and delivers three bytes,
  and after Close the file holds none of them.
\<close>

theorem storingReader_writes_through_counterexample:
  "NewStoringReader (ex_os 2) \<lparr>directory = ''d''\<rparr> ''f'' (ex_reader None) = Inr (ex_storingReader 2 None) \<and>
   fst (Reads bytes_ReadCloser [8] (ex_storingReader 2 None)) = [(''abc'', None)] \<and>
   persisted (wr (writer (snd (storingReader_Close bytes_ReadCloser
     (snd (Reads bytes_ReadCloser [8] (ex_storingReader 2 None))))))) = ''ab'' \<and>
   NewStoringReader (ex_os 100) \<lparr>directory = ''d''\<rparr> ''f'' (ex_reader (Some (Failure ''connection reset''))) =
     Inr (ex_storingReader 100 (Some (Failure ''connection reset''))) \<and>
   fst (Reads bytes_ReadCloser [8] (ex_storingReader 100 (Some (Failure ''connection reset'')))) =
     [(''abc'', None)] \<and>
   persisted (wr (writer (snd (storingReader_Close bytes_ReadCloser
     (snd (Reads bytes_ReadCloser [8] (ex_storingReader 100 (Some (Failure ''connection reset'')))))))))
     = []"
  by (simp add: sr_defs)

theorem storingReader_writes_through_witness:
  "fst (Reads bytes_ReadCloser [2, 8, 8] (ex_storingReader 100 None)) =
     [(''ab'', None), (''c'', None), ([], Some EOF)] \<and>
   fst (storingReader_Close bytes_ReadCloser (snd (Reads bytes_ReadCloser [2, 8, 8] (ex_storingReader 100 None)))) = None \<and>
   file_name (wr (writer (snd (storingReader_Close bytes_ReadCloser
     (snd (Reads bytes_ReadCloser [2, 8, 8] (ex_storingReader 100 None))))))) = ''d/f'' \<and>
   persisted (wr (writer (snd (storingReader_Close bytes_ReadCloser
     (snd (Reads bytes_ReadCloser [2, 8, 8] (ex_storingReader 100 None))))))) = ''abc''"
proof -
  obtain results t1 where reads: "Reads bytes_ReadCloser [2, 8, 8] (ex_storingReader 100 None) = (results, t1)"
    by (metis surj_pair)
  obtain cerr t2 where close: "storingReader_Close bytes_ReadCloser t1 = (cerr, t2)"
    by (metis surj_pair)
  have res: "results = [(''ab'', None), (''c'', None), ([], Some EOF)]"
    using reads by (simp add: sr_defs)
  have ok: "cerr = None"
    using reads close by (auto simp add: sr_defs)
  from storingReader_writes_through [OF ex_new reads close] res ok
  show ?thesis
    unfolding reads snd_conv fst_conv close by (simp add: ex_os_def)
qed

text \<open>
  C8. Close returns as soon as the Close of the reader fails, and does not reach the
  Flush: three bytes were delivered by Read, the reader was closed once, Close returned
  the reader's error, and the file holds no byte while the buffer still holds all three.
\<close>

theorem storingReader_Close_skips_Flush:
  "fst (Reads bytes_ReadCloser [8] (ex_storingReader 100 (Some (Failure ''connection reset'')))) =
     [(''abc'', None)] \<and>
   storingReader_Close bytes_ReadCloser
     (snd (Reads bytes_ReadCloser [8] (ex_storingReader 100 (Some (Failure ''connection reset''))))) =
     (Some (Failure ''connection reset''),
      \<lparr>reader = \<lparr>remaining = [], close_error = Some (Failure ''connection reset''), closed = 1\<rparr>,
       writer = \<lparr>b_err = None, buf = ''abc'', buf_len = 4096,
                 wr = \<lparr>file_name = ''d/f'', persisted = [], room = 100\<rparr>\<rparr>\<rparr>)"
  by (simp add: sr_defs)

section \<open>Two runs against an unchanged remote\<close>

subsection \<open>The syncer on the Content Store\<close>

lemma ContentStore_downloadStoreApply:
  assumes "storage r = ContentStore hash"
  shows "downloadStoreApply en r path checksum f c w =
     (case httpGet en (Url r @ ''/'' @ path) of
        Inl e \<Rightarrow> (Some e, c, emit (Get (Url r @ ''/'' @ path)) (log_Printf (Downloading path) w))
      | Inr body \<Rightarrow>
          f body c (emit (Store path checksum)
            (emit (Get (Url r @ ''/'' @ path)) (log_Printf (Downloading path) w)
               \<lparr>store := (store w)\<lparr>in_progress := (in_progress (store w))(path \<mapsto> body)\<rparr>\<rparr>)))"
  using assms
  by (simp add: downloadStoreApply_def DownloadApply_def Compose_def storage_StoringMapper_def
        ContentStore_def cs_streamingWriter_def split: sum.splits)

lemma ContentStore_classify:
  assumes "storage r = ContentStore hash" and "committed st = committed st'"
  shows "classify r st p = classify r st' p"
  using assms by (simp add: classify_def store_query_def ContentStore_def cs_checksum_def)

lemma ContentStore_downloadStore:
  assumes "storage r = ContentStore hash" and "downloadStore en r path w = (e, w')"
  shows "e = fetch_error en r path" and "committed (store w') = committed (store w)"
  using assms(2)
  by (auto simp: downloadStore_def ContentStore_downloadStoreApply [OF assms(1)] Nop_def fetch_error_def
        split: sum.splits)

lemma ContentStore_processPrimary_consumer:
  assumes "processPrimary_consumer en r body ([], []) w = (e, (dl, rc), w')"
  shows "store w' = store w"
    and "e = (case gzip_NewReader en body of
                Inl e \<Rightarrow> Some e
              | Inr gz \<Rightarrow> (case xml_Decode_primary en gz of Inl e \<Rightarrow> Some e | Inr primary \<Rightarrow> None))"
    and "gzip_NewReader en body = Inr gz \<Longrightarrow> xml_Decode_primary en gz = Inr primary \<Longrightarrow>
           dl = filter (\<lambda>p. classify r (store w) p = download) (Packages primary) \<and>
           rc = filter (\<lambda>p. classify r (store w) p = recycle) (Packages primary)"
proof -
  show "store w' = store w"
    using assms
    by (auto simp: processPrimary_consumer_def Let_def split: sum.splits prod.splits
          dest: processPrimary_loop_lists)
  show "e = (case gzip_NewReader en body of
                Inl e \<Rightarrow> Some e
              | Inr gz \<Rightarrow> (case xml_Decode_primary en gz of Inl e \<Rightarrow> Some e | Inr primary \<Rightarrow> None))"
    using assms
    by (auto simp: processPrimary_consumer_def Let_def split: sum.splits prod.splits)
  assume "gzip_NewReader en body = Inr gz" "xml_Decode_primary en gz = Inr primary"
  from processPrimary_consumer_decoded [OF this, of r w] assms
  show "dl = filter (\<lambda>p. classify r (store w) p = download) (Packages primary) \<and>
           rc = filter (\<lambda>p. classify r (store w) p = recycle) (Packages primary)"
    by auto
qed

lemma ContentStore_processPrimary:
  assumes cs: "storage r = ContentStore hash"
    and run: "processPrimary en r (Href (data_Location d)) w = (dl, rc, e, w')"
  shows "e = primary_error en r (Href (data_Location d))"
    and "committed (store w') = committed (store w)"
    and "manifest_of en r d = Some primary \<Longrightarrow>
           dl = filter (\<lambda>p. classify r (store w) p = download) (Packages primary) \<and>
           rc = filter (\<lambda>p. classify r (store w) p = recycle) (Packages primary)"
    and "e = None \<Longrightarrow> manifest_of en r d \<noteq> None"
proof -
  let ?path = "Href (data_Location d)"
  let ?url = "Url r @ ''/'' @ ?path"
  show e: "e = primary_error en r ?path"
  proof (cases "httpGet en ?url")
    case (Inl x)
    with run show ?thesis
      by (simp add: processPrimary_def ContentStore_downloadStoreApply [OF cs] primary_error_def)
  next
    case (Inr body)
    let ?w1 = "emit (Store ?path [])
            (emit (Get ?url) (log_Printf (Downloading ?path) w)
               \<lparr>store := (store w)\<lparr>in_progress := (in_progress (store w))(?path \<mapsto> body)\<rparr>\<rparr>)"
    from run Inr have "processPrimary_consumer en r body ([], []) ?w1 = (e, (dl, rc), w')"
      by (auto simp: processPrimary_def ContentStore_downloadStoreApply [OF cs] split: prod.splits)
    from ContentStore_processPrimary_consumer(2) [OF this] Inr show ?thesis
      by (simp add: primary_error_def)
  qed
  show "committed (store w') = committed (store w)"
  proof (cases "httpGet en ?url")
    case (Inl x)
    with run show ?thesis
      by (auto simp: processPrimary_def ContentStore_downloadStoreApply [OF cs])
  next
    case (Inr body)
    let ?w1 = "emit (Store ?path [])
            (emit (Get ?url) (log_Printf (Downloading ?path) w)
               \<lparr>store := (store w)\<lparr>in_progress := (in_progress (store w))(?path \<mapsto> body)\<rparr>\<rparr>)"
    from run Inr have "processPrimary_consumer en r body ([], []) ?w1 = (e, (dl, rc), w')"
      by (auto simp: processPrimary_def ContentStore_downloadStoreApply [OF cs] split: prod.splits)
    from ContentStore_processPrimary_consumer(1) [OF this] show ?thesis
      by simp
  qed
  show "e = None \<Longrightarrow> manifest_of en r d \<noteq> None"
    unfolding e by (auto simp: primary_error_def manifest_of_def split: sum.splits)
  assume m: "manifest_of en r d = Some primary"
  then obtain body gz where get: "httpGet en ?url = Inr body" and gz: "gzip_NewReader en body = Inr gz"
    and dec: "xml_Decode_primary en gz = Inr primary"
    by (auto simp: manifest_of_def split: sum.splits)
  let ?w1 = "emit (Store ?path [])
            (emit (Get ?url) (log_Printf (Downloading ?path) w)
               \<lparr>store := (store w)\<lparr>in_progress := (in_progress (store w))(?path \<mapsto> body)\<rparr>\<rparr>)"
  from run get have "processPrimary_consumer en r body ([], []) ?w1 = (e, (dl, rc), w')"
    by (auto simp: processPrimary_def ContentStore_downloadStoreApply [OF cs] split: prod.splits)
  from ContentStore_processPrimary_consumer(3) [OF this gz dec]
  have "dl = filter (\<lambda>p. classify r (store ?w1) p = download) (Packages primary) \<and>
        rc = filter (\<lambda>p. classify r (store ?w1) p = recycle) (Packages primary)" .
  moreover have "classify r (store ?w1) p = classify r (store w) p" for p
    by (rule ContentStore_classify [OF cs]) simp
  ultimately show "dl = filter (\<lambda>p. classify r (store w) p = download) (Packages primary) \<and>
           rc = filter (\<lambda>p. classify r (store w) p = recycle) (Packages primary)"
    by simp
qed

lemma primary_manifests_Cons:
  "primary_manifests en r (d # ds) =
     (if data_Type d = ''primary'' then
        (case manifest_of en r d of None \<Rightarrow> primary_manifests en r ds
         | Some m \<Rightarrow> m # primary_manifests en r ds)
      else primary_manifests en r ds)"
  by (simp add: primary_manifests_def split: option.splits)

lemma primary_manifests_Nil [simp]: "primary_manifests en r [] = []"
  by (simp add: primary_manifests_def)

lemma ContentStore_processMetadata_loop:
  assumes cs: "storage r = ContentStore hash"
  shows "processMetadata_loop en r ds c w = (e, c', w') \<Longrightarrow>
     e = index_error en r ds \<and> committed (store w') = committed (store w) \<and>
     (e = None \<longrightarrow>
        c' = (if primary_manifests en r ds = [] then c
              else classified r (store w) (last (primary_manifests en r ds))))"
proof (induction ds arbitrary: c w)
  case Nil
  then show ?case by simp
next
  case (Cons d ds)
  show ?case
  proof (cases "data_Type d = ''primary''")
    case True
    obtain dl rc e1 w1 where pp: "processPrimary en r (Href (data_Location d)) w = (dl, rc, e1, w1)"
      by (metis prod_cases4)
    note p = ContentStore_processPrimary [OF cs pp]
    from p(1) have pe: "primary_error en r (Href (data_Location d)) = e1" by simp
    show ?thesis
    proof (cases e1)
      case (Some x)
      with Cons.prems True pp p(2) show ?thesis by (auto simp: pe)
    next
      case None
      with p(4) obtain m where m: "manifest_of en r d = Some m" by auto
      from p(3) [OF m] have lists: "(dl, rc) = classified r (store w) m"
        by (simp add: classified_def)
      from Cons.prems True pp None
      have rest: "processMetadata_loop en r ds (dl, rc) w1 = (e, c', w')" by simp
      have same: "classified r (store w1) m' = classified r (store w) m'" for m'
        using ContentStore_classify [OF cs p(2)] by (simp add: classified_def)
      from Cons.IH [OF rest] p(2) None True m lists same show ?thesis
        by (simp add: primary_manifests_Cons pe)
    qed
  next
    case False
    obtain e1 w1 where ds: "downloadStore en r (Href (data_Location d)) w = (e1, w1)"
      by (metis surj_pair)
    note p = ContentStore_downloadStore [OF cs ds]
    from p(1) have fe: "fetch_error en r (Href (data_Location d)) = e1" by simp
    show ?thesis
    proof (cases e1)
      case (Some x)
      with Cons.prems False ds p(2) show ?thesis by (auto simp: fe)
    next
      case None
      from Cons.prems False ds None
      have rest: "processMetadata_loop en r ds c w1 = (e, c', w')" by simp
      have same: "classified r (store w1) m' = classified r (store w) m'" for m'
        using ContentStore_classify [OF cs p(2)] by (simp add: classified_def)
      from Cons.IH [OF rest] p(2) None False same show ?thesis
        by (simp add: primary_manifests_Cons fe)
    qed
  qed
qed

lemma ContentStore_processMetadata:
  assumes cs: "storage r = ContentStore hash"
    and run: "processMetadata en r w = (dl, rc, e, w')"
  shows "e = metadata_error en r"
    and "committed (store w') = committed (store w)"
    and "e = None \<Longrightarrow> httpGet en (Url r @ ''/'' @ repomdPath) = Inr body \<Longrightarrow>
         xml_Decode_repomd en body = Inr repomd \<Longrightarrow>
           (dl, rc) = (if primary_manifests en r (Data repomd) = [] then ([], [])
                       else classified r (store w) (last (primary_manifests en r (Data repomd))))"
proof -
  let ?url = "Url r @ ''/'' @ repomdPath"
  obtain e0 dl0 rc0 w1 where idx:
    "downloadStoreApply en r repomdPath [] (processMetadata_consumer en r) ([], []) w = (e0, (dl0, rc0), w1)"
    by (cases "downloadStoreApply en r repomdPath [] (processMetadata_consumer en r) ([], []) w") auto
  have e0: "e0 = (case httpGet en ?url of
        Inl e \<Rightarrow> Some e
      | Inr body \<Rightarrow>
          (case xml_Decode_repomd en body of
             Inl e \<Rightarrow> Some e
           | Inr repomd \<Rightarrow> index_error en r (Data repomd)))"
    and c0: "committed (store w1) = committed (store w)"
    and l0: "e0 = None \<Longrightarrow> httpGet en ?url = Inr body \<Longrightarrow> xml_Decode_repomd en body = Inr repomd \<Longrightarrow>
           (dl0, rc0) = (if primary_manifests en r (Data repomd) = [] then ([], [])
                       else classified r (store w) (last (primary_manifests en r (Data repomd))))"
  proof -
    show "e0 = (case httpGet en ?url of
        Inl e \<Rightarrow> Some e
      | Inr body \<Rightarrow>
          (case xml_Decode_repomd en body of
             Inl e \<Rightarrow> Some e
           | Inr repomd \<Rightarrow> index_error en r (Data repomd)))"
      using idx
      by (auto simp: ContentStore_downloadStoreApply [OF cs] processMetadata_consumer_def
            split: sum.splits dest: ContentStore_processMetadata_loop [OF cs])
    show "committed (store w1) = committed (store w)"
      using idx
      by (auto simp: ContentStore_downloadStoreApply [OF cs] processMetadata_consumer_def
            split: sum.splits dest: ContentStore_processMetadata_loop [OF cs])
    assume "e0 = None" "httpGet en ?url = Inr body" "xml_Decode_repomd en body = Inr repomd"
    with idx have loop: "processMetadata_loop en r (Data repomd) ([], [])
        (emit (Store repomdPath [])
            (emit (Get ?url) (log_Printf (Downloading repomdPath) w)
               \<lparr>store := (store w)\<lparr>in_progress := (in_progress (store w))(repomdPath \<mapsto> body)\<rparr>\<rparr>)) =
        (None, (dl0, rc0), w1)"
      by (simp add: ContentStore_downloadStoreApply [OF cs] processMetadata_consumer_def)
    have same: "classified r ((store w)\<lparr>in_progress := (in_progress (store w))(repomdPath \<mapsto> body)\<rparr>) m' =
        classified r (store w) m'" for m'
      using ContentStore_classify [OF cs, of "(store w)\<lparr>in_progress := (in_progress (store w))(repomdPath \<mapsto> body)\<rparr>" "store w"]
      by (simp add: classified_def)
    from ContentStore_processMetadata_loop [OF cs loop] same
    show "(dl0, rc0) = (if primary_manifests en r (Data repomd) = [] then ([], [])
                       else classified r (store w) (last (primary_manifests en r (Data repomd))))"
      by simp
  qed
  have "e = metadata_error en r \<and> committed (store w') = committed (store w) \<and> (e = None \<longrightarrow> dl = dl0 \<and> rc = rc0)"
  proof (cases e0)
    case (Some x)
    with idx run have r: "dl = dl0" "rc = rc0" "e = Some x" "w' = w1"
      by (simp_all add: processMetadata_def)
    from r Some e0 have "e = metadata_error en r"
      by (auto simp: metadata_error_def split: sum.splits option.splits)
    with r c0 show ?thesis by simp
  next
    case None
    with idx have idx': "downloadStoreApply en r repomdPath [] (processMetadata_consumer en r) ([], []) w =
        (None, (dl0, rc0), w1)" by simp
    obtain a w2 where asc: "downloadStore en r (repomdPath @ ''.asc'') w1 = (a, w2)"
      by (metis surj_pair)
    obtain k w3 where key: "downloadStore en r (repomdPath @ ''.key'')
        (case a of None \<Rightarrow> w2 | Some e \<Rightarrow> log_Printf Got_404_ignoring w2) = (k, w3)"
      by (metis surj_pair)
    note sa = ContentStore_downloadStore [OF cs asc]
    note sk = ContentStore_downloadStore [OF cs key]
    have c2: "committed (store w2) = committed (store w)"
      using sa(2) c0 by simp
    have c3: "committed (store w3) = committed (store w)"
      using sk(2) c2 by (cases a) simp_all
    note st = processMetadata_stages [OF idx' asc key]
    from run st have lists: "dl = dl0" "rc = rc0"
      by (auto split: if_splits)
    from run st c2 c3 have cm: "committed (store w') = committed (store w)"
      by (auto split: if_splits)
    from None e0 have ie: "metadata_error en r =
        (case signature_error en r (repomdPath @ ''.asc'') of
           Some e \<Rightarrow> Some e
         | None \<Rightarrow> signature_error en r (repomdPath @ ''.key''))"
      by (auto simp: metadata_error_def split: sum.splits option.splits)
    from sa(1) have a: "fetch_error en r (repomdPath @ ''.asc'') = a" by simp
    from sk(1) have k: "fetch_error en r (repomdPath @ ''.key'') = k" by simp
    from run st have "e = metadata_error en r"
      unfolding ie signature_error_def a k
      by (auto split: if_splits option.splits)
    with lists cm show ?thesis by simp
  qed
  then show "e = metadata_error en r" and "committed (store w') = committed (store w)"
    and "e = None \<Longrightarrow> httpGet en (Url r @ ''/'' @ repomdPath) = Inr body \<Longrightarrow>
         xml_Decode_repomd en body = Inr repomd \<Longrightarrow>
           (dl, rc) = (if primary_manifests en r (Data repomd) = [] then ([], [])
                       else classified r (store w) (last (primary_manifests en r (Data repomd))))"
    using l0 e0 by (auto simp: metadata_error_def split: sum.splits option.splits)
qed

lemma ContentStore_StoreRepo_download:
  assumes cs: "storage r = ContentStore hash"
  shows "StoreRepo_download en r ps w = (None, w') \<Longrightarrow>
     committed (store w') = committed (store w) \<and>
     (\<forall>p \<in> set ps. \<exists>b. httpGet en (package_url r p) = Inr b) \<and>
     (\<forall>path. in_progress (store w') path =
        (if path \<in> (\<lambda>p. Href (Location p)) ` set ps
         then (case httpGet en (Url r @ ''/'' @ path) of Inl e \<Rightarrow> None | Inr b \<Rightarrow> Some b)
         else in_progress (store w) path))"
proof (induction ps arbitrary: w)
  case Nil
  then show ?case by simp
next
  case (Cons p ps)
  let ?path = "Href (Location p)"
  let ?url = "Url r @ ''/'' @ ?path"
  from Cons.prems obtain b where get: "httpGet en ?url = Inr b"
    by (cases "httpGet en ?url")
      (auto simp: ContentStore_downloadStoreApply [OF cs] Nop_def)
  let ?w1 = "emit (Store ?path (checksum_Checksum (Checksum p)))
            (emit (Get ?url) (log_Printf (Downloading ?path) w)
               \<lparr>store := (store w)\<lparr>in_progress := (in_progress (store w))(?path \<mapsto> b)\<rparr>\<rparr>)"
  from Cons.prems get have rest: "StoreRepo_download en r ps ?w1 = (None, w')"
    by (simp add: ContentStore_downloadStoreApply [OF cs] Nop_def)
  from Cons.IH [OF rest] get show ?case
    by (auto simp: package_url_def)
qed

lemma ContentStore_StoreRepo_recycle:
  assumes cs: "storage r = ContentStore hash"
  shows "StoreRepo_recycle r ps w = (None, w') \<Longrightarrow>
     committed (store w') = committed (store w) \<and>
     (\<forall>path. in_progress (store w') path =
        (if path \<in> (\<lambda>p. Href (Location p)) ` set ps then committed (store w) path
         else in_progress (store w) path))"
proof (induction ps arbitrary: w)
  case Nil
  then show ?case by simp
next
  case (Cons p ps)
  let ?path = "Href (Location p)"
  obtain e w1 where one: "storage_Recycle r ?path w = (e, w1)"
    by (metis surj_pair)
  with Cons.prems have e: "e = None" and rest: "StoreRepo_recycle r ps w1 = (None, w')"
    by (auto split: option.splits)
  from one e have w1: "committed (store w1) = committed (store w)"
    "in_progress (store w1) = (in_progress (store w))(?path := committed (store w) ?path)"
    by (auto simp: storage_Recycle_def cs ContentStore_def cs_recycle_def split: option.splits)
  from Cons.IH [OF rest] w1 show ?case
    by auto
qed

lemma ContentStore_storage_Commit:
  assumes cs: "storage r = ContentStore hash" and "storage_Commit r w = (e, w')"
  shows "e = None" and "committed (store w') = in_progress (store w)"
  using assms by (auto simp: storage_Commit_def ContentStore_def cs_commit_def)

lemma ContentStore_classify_known:
  assumes cs: "storage r = ContentStore hash"
    and acc: "architecture_accepted (archs r) (Arch p)"
    and known: "known_checksum_type (checksum_Type (Checksum p))"
  shows "classify r st p =
     (case committed st (Href (Location p)) of
        None \<Rightarrow> download
      | Some content \<Rightarrow>
          if hash (checksumTypeMap_index (checksum_Type (Checksum p))) content =
               checksum_Checksum (Checksum p)
          then recycle else download)"
proof -
  from known have "checksumTypeMap_index (checksum_Type (Checksum p)) \<noteq> Unknown"
    by (auto simp: known_checksum_type_def checksumTypeMap_index_def checksumTypeMap_def)
  with acc show ?thesis
    by (simp add: classify_def store_query_def cs ContentStore_def cs_checksum_def split: option.splits)
qed

subsection \<open>The second run\<close>

lemma StoreRepo_succeeds:
  assumes "StoreRepo en r w0 = (None, w1)"
  obtains dl rc wA wB wC where
    "processMetadata en r w0 = (dl, rc, None, wA)"
    "StoreRepo_download en r dl (log_Printf (Downloading_packages (length dl)) wA) = (None, wB)"
    "StoreRepo_recycle r rc (log_Printf (Recycling_packages (length rc)) wB) = (None, wC)"
    "storage_Commit r (log_Printf Committing_changes wC) = (None, w1)"
  using assms
  by (auto simp: StoreRepo_def split: prod.splits option.splits)

lemma ContentStore_after_first_sync:
  assumes cs: "storage r = ContentStore hash"
    and first: "StoreRepo en r w0 = (None, w1)"
    and get: "httpGet en (Url r @ ''/'' @ repomdPath) = Inr body"
    and dec: "xml_Decode_repomd en body = Inr repomd"
    and ne: "primary_manifests en r (Data repomd) \<noteq> []"
    and m: "m = last (primary_manifests en r (Data repomd))"
    and sound: "sound_manifest en r hash m"
    and p: "p \<in> set (Packages m)"
    and acc: "architecture_accepted (archs r) (Arch p)"
  shows "classify r (store w1) p = recycle"
proof -
  let ?href = "\<lambda>p. Href (Location p)"
  from first obtain dl rc wA wB wC where
    pm: "processMetadata en r w0 = (dl, rc, None, wA)"
    and dls: "StoreRepo_download en r dl (log_Printf (Downloading_packages (length dl)) wA) = (None, wB)"
    and rcs: "StoreRepo_recycle r rc (log_Printf (Recycling_packages (length rc)) wB) = (None, wC)"
    and cm: "storage_Commit r (log_Printf Committing_changes wC) = (None, w1)"
    by (rule StoreRepo_succeeds)
  from ContentStore_processMetadata(3) [OF cs pm refl get dec] ne m
  have lists: "dl = filter (\<lambda>p. classify r (store w0) p = download) (Packages m)"
    "rc = filter (\<lambda>p. classify r (store w0) p = recycle) (Packages m)"
    by (simp_all add: classified_def)
  note cA = ContentStore_processMetadata(2) [OF cs pm]
  note D = ContentStore_StoreRepo_download [OF cs dls]
  note R = ContentStore_StoreRepo_recycle [OF cs rcs]
  note C = ContentStore_storage_Commit(2) [OF cs cm]
  have c0: "committed (store wB) = committed (store w0)"
    using D cA by simp
  have after: "committed (store w1) path =
      (if path \<in> ?href ` set rc then committed (store w0) path
       else if path \<in> ?href ` set dl
         then (case httpGet en (Url r @ ''/'' @ path) of Inl e \<Rightarrow> None | Inr b \<Rightarrow> Some b)
         else in_progress (store wA) path)" for path
    using C R D c0 by simp
  from sound have dist: "distinct (map ?href (accepted_records r m))"
    and good: "\<And>q. q \<in> set (accepted_records r m) \<Longrightarrow>
        known_checksum_type (checksum_Type (Checksum q)) \<and> served_as_listed en r hash q"
    by (auto simp: sound_manifest_def list_all_iff)
  from p acc have pin: "p \<in> set (accepted_records r m)"
    by (simp add: accepted_records_def)
  note known = good [OF pin, THEN conjunct1]
  note served = good [OF pin, THEN conjunct2]
  note cl = ContentStore_classify_known [OF cs acc known]
  show ?thesis
  proof (cases "classify r (store w0) p = recycle")
    case True
    with p lists have "p \<in> set rc" by simp
    then have "committed (store w1) (?href p) = committed (store w0) (?href p)"
      using after by auto
    with True show ?thesis
      by (simp add: cl)
  next
    case False
    with cl [of "store w0"] have "classify r (store w0) p = download"
      by (auto split: option.splits if_splits)
    with p lists have pdl: "p \<in> set dl" by simp
    have notrc: "?href p \<notin> ?href ` set rc"
    proof
      assume "?href p \<in> ?href ` set rc"
      then obtain q where q: "q \<in> set rc" "?href q = ?href p" by auto
      with lists have qm: "q \<in> set (Packages m)" and qr: "classify r (store w0) q = recycle"
        by simp_all
      from qr have "architecture_accepted (archs r) (Arch q)"
        by (auto simp: classify_def split: if_splits)
      with qm have "q \<in> set (accepted_records r m)"
        by (simp add: accepted_records_def)
      with pin q dist have "q = p"
        by (auto simp: distinct_map dest: inj_onD)
      with qr False show False by simp
    qed
    from D pdl obtain b where b: "httpGet en (package_url r p) = Inr b" by blast
    from notrc pdl b have "committed (store w1) (?href p) = Some b"
      using after by (auto simp: package_url_def)
    moreover from served b
    have "hash (checksumTypeMap_index (checksum_Type (Checksum p))) b = checksum_Checksum (Checksum p)"
      by (simp add: served_as_listed_def)
    ultimately show ?thesis
      by (simp add: cl)
  qed
qed

text \<open>
  C2 (amended). With the Content Store of the spec as storage: when a first StoreRepo
  succeeds, and the manifest that the unchanged remote serves is sound (its accepted
  records have distinct locations and checksum types of the table, and the bytes the
  remote serves for each hash to the record's checksum), then the classification of the
  second run succeeds, puts no record in toDownload and puts every accepted record of the
  manifest, in document order, in toRecycle.
\<close>

theorem second_sync_recycles:
  assumes cs: "storage r = ContentStore hash"
    and first: "StoreRepo en r w0 = (None, w1)"
    and get: "httpGet en (Url r @ ''/'' @ repomdPath) = Inr body"
    and dec: "xml_Decode_repomd en body = Inr repomd"
    and sound: "primary_manifests en r (Data repomd) \<noteq> [] \<longrightarrow>
                  sound_manifest en r hash (last (primary_manifests en r (Data repomd)))"
    and second: "processMetadata en r w1 = (toDownload, toRecycle, err, w2)"
  shows "err = None \<and> toDownload = [] \<and>
         toRecycle = (if primary_manifests en r (Data repomd) = [] then []
                      else accepted_records r (last (primary_manifests en r (Data repomd))))"
proof -
  from first obtain dl rc wA where pm: "processMetadata en r w0 = (dl, rc, None, wA)"
    by (rule StoreRepo_succeeds)
  from ContentStore_processMetadata(1) [OF cs pm] ContentStore_processMetadata(1) [OF cs second]
  have err: "err = None" by simp
  note lists = ContentStore_processMetadata(3) [OF cs second err get dec]
  show ?thesis
  proof (cases "primary_manifests en r (Data repomd) = []")
    case True
    with lists err show ?thesis by simp
  next
    case False
    define m where "m = last (primary_manifests en r (Data repomd))"
    from sound False have s: "sound_manifest en r hash m" by (simp add: m_def)
    have cls: "classify r (store w1) p =
        (if architecture_accepted (archs r) (Arch p) then recycle else excluded)"
      if "p \<in> set (Packages m)" for p
    proof (cases "architecture_accepted (archs r) (Arch p)")
      case True
      from ContentStore_after_first_sync [OF cs first get dec False m_def s that True] True
      show ?thesis by simp
    next
      case False
      then show ?thesis by (simp add: classify_def)
    qed
    from lists False have "toDownload = filter (\<lambda>p. classify r (store w1) p = download) (Packages m)"
      and "toRecycle = filter (\<lambda>p. classify r (store w1) p = recycle) (Packages m)"
      by (simp_all add: classified_def m_def)
    moreover have "filter (\<lambda>p. classify r (store w1) p = download) (Packages m) = []"
      using cls by (auto simp: filter_empty_conv)
    moreover have "filter (\<lambda>p. classify r (store w1) p = recycle) (Packages m) = accepted_records r m"
      unfolding accepted_records_def using cls by (intro filter_cong) auto
    ultimately show ?thesis
      using err False by (simp add: m_def)
  qed
qed

text \<open>
  C2, as stated, fails for a remote whose manifest lists a checksum that the bytes it
  serves do not have: the first run succeeds and stores the bytes, and the second run
  classifies the package as a download again.
\<close>

theorem second_sync_counterexample:
  "fst (StoreRepo ex_env_stale ex_syncer ex_world_empty) = None \<and>
   fst (processMetadata ex_env_stale ex_syncer (snd (StoreRepo ex_env_stale ex_syncer ex_world_empty))) =
     [ex_pack ''x86_64'' ''a'' ''sha256'' ''2A''] \<and>
   fst (snd (processMetadata ex_env_stale ex_syncer (snd (StoreRepo ex_env_stale ex_syncer ex_world_empty)))) = []"
  by (simp add: ex_env_stale_def ex_world_empty_def StoreRepo_def ex_defs run_defs)

lemma ex_sound_first: "\<exists>w1. StoreRepo ex_env_sound ex_syncer ex_world = (None, w1)"
  by (simp add: ex_env_sound_def StoreRepo_def ex_defs run_defs)

lemma ex_sound_manifests:
  "primary_manifests ex_env_sound ex_syncer (Data ex_index) =
     [\<lparr>Packages = [ex_pack ''x86_64'' ''a'' ''sha256'' ''2A'',
                   ex_pack ''noarch'' ''b'' ''sha'' ''1B'',
                   ex_pack ''i386'' ''e'' ''sha1'' ''1E'']\<rparr>]"
  by (simp add: primary_manifests_def manifest_of_def ex_env_sound_def ex_defs)

lemma ex_sound_accepted:
  "accepted_records ex_syncer
     \<lparr>Packages = [ex_pack ''x86_64'' ''a'' ''sha256'' ''2A'',
                  ex_pack ''noarch'' ''b'' ''sha'' ''1B'',
                  ex_pack ''i386'' ''e'' ''sha1'' ''1E'']\<rparr> =
   [ex_pack ''x86_64'' ''a'' ''sha256'' ''2A'', ex_pack ''noarch'' ''b'' ''sha'' ''1B'']"
  by (simp add: accepted_records_def architecture_accepted_def ex_syncer_def ex_pack_def)

lemma ex_sound_manifest:
  "sound_manifest ex_env_sound ex_syncer ex_hash
     \<lparr>Packages = [ex_pack ''x86_64'' ''a'' ''sha256'' ''2A'',
                  ex_pack ''noarch'' ''b'' ''sha'' ''1B'',
                  ex_pack ''i386'' ''e'' ''sha1'' ''1E'']\<rparr>"
  unfolding sound_manifest_def ex_sound_accepted
  by (simp add: known_checksum_type_def served_as_listed_def package_url_def ex_env_sound_def
        checksumTypeMap_index_def checksumTypeMap_def ex_defs)

theorem second_sync_recycles_witness:
  "fst (StoreRepo ex_env_sound ex_syncer ex_world) = None \<and>
   fst (processMetadata ex_env_sound ex_syncer (snd (StoreRepo ex_env_sound ex_syncer ex_world))) = [] \<and>
   fst (snd (processMetadata ex_env_sound ex_syncer (snd (StoreRepo ex_env_sound ex_syncer ex_world)))) =
     [ex_pack ''x86_64'' ''a'' ''sha256'' ''2A'', ex_pack ''noarch'' ''b'' ''sha'' ''1B''] \<and>
   fst (snd (snd (processMetadata ex_env_sound ex_syncer (snd (StoreRepo ex_env_sound ex_syncer ex_world))))) =
     None"
proof -
  obtain w1 where first: "StoreRepo ex_env_sound ex_syncer ex_world = (None, w1)"
    using ex_sound_first by blast
  obtain dl rc e w2 where second: "processMetadata ex_env_sound ex_syncer w1 = (dl, rc, e, w2)"
    by (metis prod_cases4)
  have cs: "storage ex_syncer = ContentStore ex_hash"
    by (simp add: ex_syncer_def)
  have get: "httpGet ex_env_sound (Url ex_syncer @ ''/'' @ repomdPath) = Inr ''I''"
    by (simp add: ex_env_sound_def ex_env_def ex_remote_def ex_syncer_def repomdPath_def)
  have dec: "xml_Decode_repomd ex_env_sound ''I'' = Inr ex_index"
    by (simp add: ex_env_sound_def ex_env_def)
  have sound: "primary_manifests ex_env_sound ex_syncer (Data ex_index) \<noteq> [] \<longrightarrow>
      sound_manifest ex_env_sound ex_syncer ex_hash (last (primary_manifests ex_env_sound ex_syncer (Data ex_index)))"
    by (simp add: ex_sound_manifests ex_sound_manifest)
  from second_sync_recycles [OF cs first get dec sound second]
  show ?thesis
    unfolding first snd_conv fst_conv second
    by (simp add: ex_sound_manifests ex_sound_accepted)
qed

end
